theory Spec2Isabelle
  imports Main "HOL-Library.Word"
begin

section \<open>Machine integers and failures\<close>

text \<open>
  The scheduler counts bytes and resource blocks in C++ \<open>unsigned\<close>: a 32-bit word whose
  subtraction wraps around.
\<close>

type_synonym u32 = "32 word"

text \<open>
  \<open>srsran_assert\<close> and \<open>srsran_sanity_check\<close> stop the program with a diagnostic; reading
  through a null \<open>ue_cell*\<close> or past the end of a container is a fault. Each is a value
  of the model.
\<close>

datatype error =
    AssertionFailure string
  | SanityCheckFailure string
  | NullPointerDereference
  | OutOfRangeAccess

section \<open>Slots\<close>

text \<open>
  Modelled from the spec: \<open>slot_point\<close> is not under src/. A slot is a numerology and a
  counter of slots (the system frame number times the slots of a frame, plus the slot
  index in the frame); the test bench builds one as \<open>slot_point{numerology, count}\<close>.
  The counter wraps at the slots of 1024 system frames of \<open>10 * 2 ^ numerology\<close> slots;
  the difference of two slots is an \<open>int\<close> that accounts for the wrap-around within
  half that period on either side, and the order of two slots is the sign of their
  difference.
\<close>

record slot_point =
  numerology :: nat
  count_val :: nat





section \<open>Logical channel managers\<close>

type_synonym lcid_t = nat

definition LCID_SRB0 :: lcid_t where
  "LCID_SRB0 = 0"

definition LCID_SRB1 :: lcid_t where
  "LCID_SRB1 = 1"

text \<open>What a subPDU of a DL transport block carries, and with how many bytes.\<close>

datatype lcid_dl_sch_t = UE_CON_RES_ID | SDU lcid_t

record dl_msg_lc_info =
  lcid :: lcid_dl_sch_t
  sched_bytes :: u32

record dl_msg_tb_info =
  lc_chs_to_sched :: "dl_msg_lc_info list"

text \<open>
  Modelled from the spec: the DL logical channel manager and the allocation helpers
  \<open>allocate_ue_con_res_id_mac_ce\<close> and \<open>allocate_mac_sdus\<close> are not under src/. The
  manager tracks the pending bytes of every logical channel and whether the contention
  resolution identity MAC CE is still to be sent. An allocation first serves the
  mandatory MAC control element, then data, consuming from the channel's pending
  counter and from the remaining byte budget. The size of the MAC CE with its subheader
  is a constant of the absent code: a parameter here.
\<close>

record dl_logical_channel_manager =
  pending_con_res_id :: bool
  dl_buf_st :: "lcid_t \<Rightarrow> u32"

definition dl_pending_bytes :: "dl_logical_channel_manager \<Rightarrow> lcid_t \<Rightarrow> u32" where
  "dl_pending_bytes mgr l = dl_buf_st mgr l"

definition has_pending_bytes :: "dl_logical_channel_manager \<Rightarrow> lcid_t \<Rightarrow> bool" where
  "has_pending_bytes mgr l = (dl_pending_bytes mgr l > 0)"

definition allocate_ue_con_res_id_mac_ce ::
  "u32 \<Rightarrow> dl_msg_tb_info \<Rightarrow> dl_logical_channel_manager \<Rightarrow> u32
     \<Rightarrow> u32 \<times> dl_msg_tb_info \<times> dl_logical_channel_manager" where
  "allocate_ue_con_res_id_mac_ce ce_size tb_info mgr total_tbs =
     (if pending_con_res_id mgr \<and> ce_size \<le> total_tbs
      then (ce_size,
            tb_info\<lparr>lc_chs_to_sched :=
              lc_chs_to_sched tb_info @ [\<lparr>lcid = UE_CON_RES_ID, sched_bytes = ce_size\<rparr>]\<rparr>,
            mgr\<lparr>pending_con_res_id := False\<rparr>)
      else (0, tb_info, mgr))"

definition allocate_mac_sdus ::
  "dl_msg_tb_info \<Rightarrow> dl_logical_channel_manager \<Rightarrow> u32 \<Rightarrow> lcid_t
     \<Rightarrow> u32 \<times> dl_msg_tb_info \<times> dl_logical_channel_manager" where
  "allocate_mac_sdus tb_info mgr total_tbs l =
     (let alloc_bytes = min total_tbs (dl_pending_bytes mgr l)
      in if alloc_bytes = 0 then (0, tb_info, mgr)
         else (alloc_bytes,
               tb_info\<lparr>lc_chs_to_sched :=
                 lc_chs_to_sched tb_info @ [\<lparr>lcid = SDU l, sched_bytes = alloc_bytes\<rparr>]\<rparr>,
               mgr\<lparr>dl_buf_st := (dl_buf_st mgr)(l := dl_pending_bytes mgr l - alloc_bytes)\<rparr>))"

text \<open>
  Modelled from the spec: the UL logical channel manager is not under src/. Of it
  \<open>ue::pending_ul_newtx_bytes\<close> reads \<open>pending_bytes()\<close>, the bytes of the last buffer
  status reports summed over the logical channel groups, and \<open>has_pending_sr()\<close>.
\<close>

record ul_logical_channel_manager =
  ul_pending_bytes :: u32
  has_pending_sr :: bool

section \<open>UE configuration\<close>

text \<open>
  Modelled from the spec: \<open>ue_configuration\<close> is not under src/. It lists the
  configurations of the UE's serving cells by UE cell index (index 0 is the primary
  cell); each names the DU cell index of its cell. \<open>ue_cell_cfg\<close> reads one by UE cell
  index or by DU cell index, \<open>contains\<close> tells whether a DU cell is configured. What a
  cell configuration holds beyond its cell index is opaque to \<open>ue.cpp\<close>.
\<close>

record ue_cell_configuration =
  cell_index :: nat
  cell_cfg_ded :: nat

record ue_configuration =
  cfg_cells :: "ue_cell_configuration list"
  logical_channels :: "lcid_t list"

definition nof_cells :: "ue_configuration \<Rightarrow> nat" where
  "nof_cells cfg = length (cfg_cells cfg)"

definition contains :: "ue_configuration \<Rightarrow> nat \<Rightarrow> bool" where
  "contains cfg d = (d \<in> set (map cell_index (cfg_cells cfg)))"

definition ue_cell_cfg_by_ue_index :: "ue_configuration \<Rightarrow> nat \<Rightarrow> ue_cell_configuration option" where
  "ue_cell_cfg_by_ue_index cfg i =
     (if i < length (cfg_cells cfg) then Some (cfg_cells cfg ! i) else None)"

definition ue_cell_cfg_by_du_index :: "ue_configuration \<Rightarrow> nat \<Rightarrow> ue_cell_configuration option" where
  "ue_cell_cfg_by_du_index cfg d = find (\<lambda>c. cell_index c = d) (cfg_cells cfg)"

section \<open>UE cells and the UE (lib/scheduler/ue_context/ue.cpp)\<close>

text \<open>
  Modelled from the spec: the HARQ entity of a UE cell is not under src/. Of it
  \<open>ue::pending_ul_newtx_bytes\<close> reads only \<open>total_ul_bytes_waiting_ack()\<close>, the UL bytes
  of the HARQ processes that wait for an acknowledgment.
\<close>

record harq_entity =
  total_ul_bytes_waiting_ack :: u32

text \<open>
  The state of one serving cell of a UE that \<open>ue.cpp\<close> reads and writes: its
  configuration, the slots of its last PDSCH and PUSCH allocations (\<open>None\<close> when
  cleared), its HARQ entity and its fallback flag.
\<close>

record ue_cell =
  ue_cell_cfg :: ue_cell_configuration
  last_pdsch_allocated_slot :: "slot_point option"
  last_pusch_allocated_slot :: "slot_point option"
  harqs :: harq_entity
  is_fallback :: bool

text \<open>
  \<open>ue_du_cells\<close> owns the cells, indexed by DU cell index (\<open>None\<close> is a null
  \<open>unique_ptr\<close>); \<open>ue_cells\<close> holds plain pointers to the same objects, indexed by UE
  cell index: a pointer is the DU cell index of the object it points to, \<open>None\<close> is
  \<open>nullptr\<close>.
\<close>

type_synonym cell_store = "nat \<Rightarrow> ue_cell option"

record ue =
  ue_ded_cfg :: ue_configuration
  ue_du_cells :: cell_store
  ue_cells :: "nat option list"
  dl_lc_ch_mgr :: dl_logical_channel_manager
  ul_lc_ch_mgr :: ul_logical_channel_manager

definition deref :: "cell_store \<Rightarrow> nat option \<Rightarrow> ue_cell option" where
  "deref store p = (case p of None \<Rightarrow> None | Some d \<Rightarrow> store d)"

text \<open>\<open>unique_ptr::get\<close>: the pointer to the cell owned at a DU cell index.\<close>

definition get_ptr :: "cell_store \<Rightarrow> nat \<Rightarrow> nat option" where
  "get_ptr store d = (case store d of None \<Rightarrow> None | Some c \<Rightarrow> Some d)"

subsection \<open>\<open>ue::slot_indication\<close>\<close>











subsection \<open>\<open>ue::handle_reconfiguration_request\<close> and the constructor\<close>

text \<open>
  The collaborators of \<open>ue.cpp\<close> that are not under src/ and whose results the UE only
  stores: \<open>configure\<close> of the two logical channel managers, the constructor of
  \<open>ue_cell\<close> and its \<open>handle_reconfiguration_request\<close>, the managers a new UE starts
  with, and \<open>pcell_cfg()\<close> of the UE configuration, which the constructor reads in its
  member initialisers before its body runs. They are parameters.
\<close>

record collaborators =
  dl_configure :: "lcid_t list \<Rightarrow> dl_logical_channel_manager \<Rightarrow> dl_logical_channel_manager"
  ul_configure :: "lcid_t list \<Rightarrow> ul_logical_channel_manager \<Rightarrow> ul_logical_channel_manager"
  make_ue_cell :: "ue_cell_configuration \<Rightarrow> ue_cell"
  reconfigure_ue_cell :: "ue_cell_configuration \<Rightarrow> ue_cell \<Rightarrow> ue_cell"
  new_dl_lc_ch_mgr :: dl_logical_channel_manager
  new_ul_lc_ch_mgr :: ul_logical_channel_manager
  pcell_cfg :: "ue_configuration \<Rightarrow> error + ue_cell_configuration"

text \<open>\<open>std::vector::resize(n, nullptr)\<close>.\<close>

definition resize_ptrs :: "nat \<Rightarrow> nat option list \<Rightarrow> nat option list" where
  "resize_ptrs n ps = take n ps @ replicate (n - length ps) None"

text \<open>
  "Handle removed cells": the loop visits every cell of \<open>ue_du_cells\<close> and, for one
  that the new configuration does not contain, does nothing (the TODO of the source).
\<close>

definition handle_removed_cells :: "ue \<Rightarrow> ue" where
  "handle_removed_cells u = u"

text \<open>
  "Handle new cell creations or reconfigurations": the body of the loop for one UE
  cell index.
\<close>

definition create_or_reconfigure_cell :: "collaborators \<Rightarrow> nat \<Rightarrow> ue \<Rightarrow> error + ue" where
  "create_or_reconfigure_cell col i u =
     (case ue_cell_cfg_by_ue_index (ue_ded_cfg u) i of
        None \<Rightarrow> Inl OutOfRangeAccess
      | Some c \<Rightarrow>
          (let d = cell_index c in
           case ue_cell_cfg_by_du_index (ue_ded_cfg u) d of
             None \<Rightarrow> Inl OutOfRangeAccess
           | Some cell_cfg \<Rightarrow>
               (case ue_du_cells u d of
                  None \<Rightarrow>
                    Inr (u\<lparr>ue_du_cells := (ue_du_cells u)(d := Some (make_ue_cell col cell_cfg)),
                           ue_cells := (if i \<ge> length (ue_cells u)
                                        then resize_ptrs (i + 1) (ue_cells u)
                                        else ue_cells u)\<rparr>)
                | Some ue_cell_inst \<Rightarrow>
                    Inr (u\<lparr>ue_du_cells :=
                           (ue_du_cells u)(d := Some (reconfigure_ue_cell col cell_cfg ue_cell_inst))\<rparr>))))"

fun create_or_reconfigure_cells :: "collaborators \<Rightarrow> nat list \<Rightarrow> ue \<Rightarrow> error + ue" where
  "create_or_reconfigure_cells col [] u = Inr u"
| "create_or_reconfigure_cells col (i # is) u =
     (case create_or_reconfigure_cell col i u of
        Inl e \<Rightarrow> Inl e
      | Inr u' \<Rightarrow> create_or_reconfigure_cells col is u')"

text \<open>
  "Recompute mapping of UE cell indexing to DU cell indexing": \<open>ue_cells\<close> is resized
  to the number of configured cells and every entry is set to the pointer of the cell
  owned at the DU cell index of that UE cell.
\<close>

definition recompute_cell_mapping :: "ue \<Rightarrow> ue" where
  "recompute_cell_mapping u =
     u\<lparr>ue_cells := map (\<lambda>c. get_ptr (ue_du_cells u) (cell_index c)) (cfg_cells (ue_ded_cfg u))\<rparr>"

text \<open>
  The function: the assertion, the new configuration, the logical channels, the three
  loops. The reconfiguration of the DRX controller, a member that holds no cell state,
  is left out. \<open>du_cell_index_t\<close> bounds the index into \<open>ue_du_cells\<close>; the store of the
  model has an entry for every index.
\<close>

definition handle_reconfiguration_request :: "collaborators \<Rightarrow> ue_configuration \<Rightarrow> ue \<Rightarrow> error + ue" where
  "handle_reconfiguration_request col cfg u =
     (if \<not> nof_cells cfg > 0
      then Inl (AssertionFailure ''Creation of a UE requires at least PCell configuration.'')
      else
        (let u1 = u\<lparr>ue_ded_cfg := cfg,
                    dl_lc_ch_mgr := dl_configure col (logical_channels cfg) (dl_lc_ch_mgr u),
                    ul_lc_ch_mgr := ul_configure col (logical_channels cfg) (ul_lc_ch_mgr u)\<rparr>;
             u2 = handle_removed_cells u1
         in case create_or_reconfigure_cells col [0 ..< nof_cells cfg] u2 of
              Inl e \<Rightarrow> Inl e
            | Inr u3 \<Rightarrow> Inr (recompute_cell_mapping u3)))"

text \<open>
  What a reconfiguration asks for a cell named in the new configuration: it is created
  if absent and reconfigured in place if present.
\<close>

definition apply_cell_cfg :: "collaborators \<Rightarrow> ue_cell_configuration \<Rightarrow> ue_cell option \<Rightarrow> ue_cell" where
  "apply_cell_cfg col cell_cfg old =
     (case old of
        None \<Rightarrow> make_ue_cell col cell_cfg
      | Some c \<Rightarrow> reconfigure_ue_cell col cell_cfg c)"

record ue_creation_command =
  cmd_cfg :: ue_configuration
  starts_in_fallback :: bool

definition set_fallback_state :: "bool \<Rightarrow> ue_cell \<Rightarrow> ue_cell" where
  "set_fallback_state b c = c\<lparr>is_fallback := b\<rparr>"

text \<open>
  The constructor: the member initialisers (which read \<open>pcell_cfg()\<close> and start with no
  cell), then the configuration, then the fallback state of every cell.
\<close>

definition ue_ctor :: "collaborators \<Rightarrow> ue_creation_command \<Rightarrow> error + ue" where
  "ue_ctor col cmd =
     (case pcell_cfg col (cmd_cfg cmd) of
        Inl e \<Rightarrow> Inl e
      | Inr pcell \<Rightarrow>
          (case handle_reconfiguration_request col (cmd_cfg cmd)
                  \<lparr>ue_ded_cfg = cmd_cfg cmd, ue_du_cells = (\<lambda>d. None), ue_cells = [],
                   dl_lc_ch_mgr = new_dl_lc_ch_mgr col, ul_lc_ch_mgr = new_ul_lc_ch_mgr col\<rparr> of
             Inl e \<Rightarrow> Inl e
           | Inr u \<Rightarrow>
               Inr (u\<lparr>ue_du_cells :=
                      (\<lambda>d. map_option (set_fallback_state (starts_in_fallback cmd)) (ue_du_cells u d))\<rparr>)))"

subsection \<open>\<open>ue::pending_ul_newtx_bytes\<close>\<close>

definition SR_GRANT_BYTES :: u32 where
  "SR_GRANT_BYTES = 512"

text \<open>
  The loop over \<open>ue_cells\<close> that subtracts the bytes already allocated in UL HARQs:
  it leaves at \<open>pending_bytes == 0\<close> before it reads the cell.
\<close>

fun subtract_harq_bytes :: "cell_store \<Rightarrow> nat option list \<Rightarrow> u32 \<Rightarrow> error + u32" where
  "subtract_harq_bytes store [] pending_bytes = Inr pending_bytes"
| "subtract_harq_bytes store (p # ps) pending_bytes =
     (if pending_bytes = 0 then Inr pending_bytes
      else (case deref store p of
              None \<Rightarrow> Inl NullPointerDereference
            | Some ue_cc \<Rightarrow>
                (let harq_bytes = total_ul_bytes_waiting_ack (harqs ue_cc)
                 in subtract_harq_bytes store ps (pending_bytes - min pending_bytes harq_bytes))))"

definition pending_ul_newtx_bytes :: "ue \<Rightarrow> error + u32" where
  "pending_ul_newtx_bytes u =
     (case subtract_harq_bytes (ue_du_cells u) (ue_cells u) (ul_pending_bytes (ul_lc_ch_mgr u)) of
        Inl e \<Rightarrow> Inl e
      | Inr pending_bytes \<Rightarrow>
          Inr (if pending_bytes > 0 then pending_bytes
               else (if has_pending_sr (ul_lc_ch_mgr u) then SR_GRANT_BYTES else 0)))"

text \<open>The UL bytes waiting for an acknowledgment in the cell a pointer refers to.\<close>

definition harq_bytes_of :: "cell_store \<Rightarrow> nat option \<Rightarrow> nat" where
  "harq_bytes_of store p =
     (case deref store p of None \<Rightarrow> 0 | Some c \<Rightarrow> unat (total_ul_bytes_waiting_ack (harqs c)))"

definition valid_ptr :: "cell_store \<Rightarrow> nat option \<Rightarrow> bool" where
  "valid_ptr store p = (deref store p \<noteq> None)"

subsection \<open>\<open>ue::build_dl_fallback_transport_block_info\<close>\<close>

text \<open>
  The function fills \<open>tb_info\<close> through the reference it is given and returns the bytes
  of the subPDUs it added; the model returns the three of them: the byte count, the
  block and the UE with its DL logical channel manager updated.
\<close>

definition build_dl_fallback_transport_block_info ::
  "u32 \<Rightarrow> dl_msg_tb_info \<Rightarrow> u32 \<Rightarrow> ue \<Rightarrow> u32 \<times> dl_msg_tb_info \<times> ue" where
  "build_dl_fallback_transport_block_info ce_size tb_info tb_size_bytes u =
     (case allocate_ue_con_res_id_mac_ce ce_size tb_info (dl_lc_ch_mgr u) tb_size_bytes of
        (ce_bytes, tb1, mgr1) \<Rightarrow>
          (let total_subpdu_bytes = 0 + ce_bytes in
           if has_pending_bytes mgr1 LCID_SRB0 \<and>
              tb_size_bytes - total_subpdu_bytes \<ge> dl_pending_bytes mgr1 LCID_SRB0
           then (case allocate_mac_sdus tb1 mgr1 (tb_size_bytes - total_subpdu_bytes) LCID_SRB0 of
                   (n, tb2, mgr2) \<Rightarrow> (total_subpdu_bytes + n, tb2, u\<lparr>dl_lc_ch_mgr := mgr2\<rparr>))
           else (case allocate_mac_sdus tb1 mgr1 (tb_size_bytes - total_subpdu_bytes) LCID_SRB1 of
                   (n, tb2, mgr2) \<Rightarrow> (total_subpdu_bytes + n, tb2, u\<lparr>dl_lc_ch_mgr := mgr2\<rparr>))))"

text \<open>The subPDUs a call added to the block, and whether one of them carries a channel.\<close>

definition added_subpdus :: "dl_msg_tb_info \<Rightarrow> dl_msg_tb_info \<Rightarrow> dl_msg_lc_info list" where
  "added_subpdus tb_before tb_after =
     drop (length (lc_chs_to_sched tb_before)) (lc_chs_to_sched tb_after)"

definition carries :: "dl_msg_lc_info list \<Rightarrow> lcid_t \<Rightarrow> bool" where
  "carries subpdus l = list_ex (\<lambda>s. lcid s = SDU l) subpdus"

text \<open>The bytes of the contention resolution MAC CE that a block of a given size gets.\<close>

definition con_res_ce_bytes :: "u32 \<Rightarrow> dl_logical_channel_manager \<Rightarrow> u32 \<Rightarrow> u32" where
  "con_res_ce_bytes ce_size mgr tb_size_bytes =
     (if pending_con_res_id mgr \<and> ce_size \<le> tb_size_bytes then ce_size else 0)"

text \<open>The subPDU of the contention resolution MAC CE, when the block gets it.\<close>

definition con_res_subpdu :: "u32 \<Rightarrow> dl_logical_channel_manager \<Rightarrow> u32 \<Rightarrow> dl_msg_lc_info list" where
  "con_res_subpdu ce_size mgr tb_size_bytes =
     (if pending_con_res_id mgr \<and> ce_size \<le> tb_size_bytes
      then [\<lparr>lcid = UE_CON_RES_ID, sched_bytes = ce_size\<rparr>] else [])"

text \<open>
  SRB0 has pending bytes and all of them fit in what the MAC CE leaves of the block:
  the condition of the \<open>if\<close> of the function.
\<close>

definition srb0_fits :: "u32 \<Rightarrow> dl_logical_channel_manager \<Rightarrow> u32 \<Rightarrow> bool" where
  "srb0_fits ce_size mgr tb_size_bytes =
     (dl_pending_bytes mgr LCID_SRB0 > 0 \<and>
      dl_pending_bytes mgr LCID_SRB0
        \<le> tb_size_bytes - con_res_ce_bytes ce_size mgr tb_size_bytes)"

section \<open>CRB limits of a PDSCH grant (lib/scheduler/support/pdsch/pdsch_resource_allocation.h)\<close>

text \<open>
  Modelled from the spec: the interval type, and the configuration types of which
  \<open>get_ra_crb_limits\<close> reads one accessor each, are not under src/. A CRB interval is
  \<open>[start, stop)\<close> over \<open>unsigned\<close>; its length is \<open>stop - start\<close> and \<open>resize\<close> keeps the
  start and sets the length.
\<close>

record crb_interval =
  start :: u32
  stop :: u32

definition interval_length :: "crb_interval \<Rightarrow> u32" where
  "interval_length iv = stop iv - start iv"

definition resize :: "crb_interval \<Rightarrow> u32 \<Rightarrow> crb_interval" where
  "resize iv new_length = iv\<lparr>stop := start iv + new_length\<rparr>"

datatype dci_dl_format = f1_0 | f1_1 | f2_0

record search_space_configuration =
  is_common_search_space :: bool

record coreset_configuration =
  get_coreset_start_crb :: u32
  coreset0_crbs :: crb_interval

record bwp_configuration =
  crbs :: crb_interval

record pdcch_config_common =
  coreset0 :: "coreset_configuration option"

record bwp_downlink_common =
  generic_params :: bwp_configuration
  pdcch_common :: pdcch_config_common

definition get_ra_crb_limits ::
  "dci_dl_format \<Rightarrow> bwp_downlink_common \<Rightarrow> bwp_downlink_common \<Rightarrow> search_space_configuration
     \<Rightarrow> coreset_configuration \<Rightarrow> crb_interval" where
  "get_ra_crb_limits dci_fmt init_dl_bwp active_dl_bwp ss_cfg cs_cfg =
     (let crbs0 = crbs (generic_params active_dl_bwp) in
      if dci_fmt = f1_0 \<and> is_common_search_space ss_cfg
      then (let crbs1 = \<lparr>start = get_coreset_start_crb cs_cfg, stop = stop crbs0\<rparr> in
            case coreset0 (pdcch_common init_dl_bwp) of
              Some cs0 \<Rightarrow>
                resize crbs1 (min (interval_length crbs1) (interval_length (coreset0_crbs cs0)))
            | None \<Rightarrow>
                resize crbs1 (min (interval_length crbs1)
                                  (interval_length (crbs (generic_params init_dl_bwp)))))
      else crbs0)"

text \<open>
  The width that bounds a fallback grant: of coreset0 when the initial BWP configures
  it, of the initial BWP otherwise.
\<close>

definition fallback_width :: "bwp_downlink_common \<Rightarrow> u32" where
  "fallback_width init_dl_bwp =
     (case coreset0 (pdcch_common init_dl_bwp) of
        Some cs0 \<Rightarrow> interval_length (coreset0_crbs cs0)
      | None \<Rightarrow> interval_length (crbs (generic_params init_dl_bwp)))"

section \<open>SRB0 scheduling\<close>

subsection \<open>The duplex configuration of the cell\<close>

text \<open>
  Modelled from the spec: \<open>cell_configuration\<close> and \<open>csi_helper::is_csi_rs_slot\<close> are not
  under src/. Of the cell configuration the test and the scheduler ask whether a slot
  is DL-capable, UL-capable or carries the periodic CSI-RS. A slot is its count from
  the start of a run that is shorter than the wrap period of the slot counter.
\<close>

record cell_configuration =
  is_dl_enabled :: "nat \<Rightarrow> bool"
  is_ul_enabled :: "nat \<Rightarrow> bool"
  is_csi_rs_slot :: "nat \<Rightarrow> bool"

subsection \<open>Helpers of the test (tests/unittests/scheduler/ue_scheduling/srb0_scheduler_test.cpp)\<close>

text \<open>
  \<open>get_next_dl_slot\<close>: the \<open>while\<close> loop runs for ever when no DL slot follows, so the
  result is an option.
\<close>

partial_function (option) get_next_dl_slot :: "cell_configuration \<Rightarrow> nat \<Rightarrow> nat option" where
  "get_next_dl_slot cfg sl =
     (if \<not> is_dl_enabled cfg sl then get_next_dl_slot cfg (sl + 1) else Some sl)"

text \<open>The acknowledgment timing offsets of DCI format 1_0, and \<open>k1_falls_on_ul\<close>.\<close>

definition dci_1_0_k1_values :: "nat list" where
  "dci_1_0_k1_values = [4, 5, 6, 7, 8]"

definition k1_falls_on_ul :: "cell_configuration \<Rightarrow> nat \<Rightarrow> bool" where
  "k1_falls_on_ul cfg pdsch_slot =
     list_ex (\<lambda>k1. is_ul_enabled cfg (pdsch_slot + k1)) dci_1_0_k1_values"

text \<open>
  \<open>get_next_candidate_alloc_slot\<close>: its \<open>do ... while\<close> loop steps over as many DL slots
  as the grid is occupied for, its \<open>while\<close> loop then moves to a DL slot without CSI-RS
  from which some offset \<open>k1\<close> falls on an UL slot.
\<close>

partial_function (option) skip_occupied_dl_slots ::
  "cell_configuration \<Rightarrow> nat \<Rightarrow> nat \<Rightarrow> nat \<Rightarrow> nat option" where
  "skip_occupied_dl_slots cfg nof_slot_grid_occupancy sched_slot occupy_grid_slot_cnt =
     (let sched_slot1 = sched_slot + 1;
          cnt1 = (if is_dl_enabled cfg sched_slot1 then occupy_grid_slot_cnt + 1
                  else occupy_grid_slot_cnt)
      in if cnt1 \<noteq> nof_slot_grid_occupancy
         then skip_occupied_dl_slots cfg nof_slot_grid_occupancy sched_slot1 cnt1
         else Some sched_slot1)"

partial_function (option) skip_to_pucch_compatible_slot :: "cell_configuration \<Rightarrow> nat \<Rightarrow> nat option" where
  "skip_to_pucch_compatible_slot cfg sched_slot =
     (if \<not> k1_falls_on_ul cfg sched_slot \<or> \<not> is_dl_enabled cfg sched_slot \<or> is_csi_rs_slot cfg sched_slot
      then skip_to_pucch_compatible_slot cfg (sched_slot + 1)
      else Some sched_slot)"

definition get_next_candidate_alloc_slot :: "cell_configuration \<Rightarrow> nat \<Rightarrow> nat \<Rightarrow> nat option" where
  "get_next_candidate_alloc_slot cfg sched_slot nof_slot_grid_occupancy =
     (if nof_slot_grid_occupancy = 0 then Some sched_slot
      else (case skip_occupied_dl_slots cfg nof_slot_grid_occupancy sched_slot 0 of
              None \<Rightarrow> None
            | Some s \<Rightarrow> skip_to_pucch_compatible_slot cfg s))"

text \<open>
  The loop of \<open>test_ahead_scheduling_for_srb0_allocation_1_ue\<close> that fills the DL grid
  of the next \<open>nof_slots_grid_is_busy\<close> DL slots, from the slot of the buffer state
  update on; the model collects the slots it fills.
\<close>

partial_function (option) occupy_grid ::
  "cell_configuration \<Rightarrow> nat \<Rightarrow> nat \<Rightarrow> nat \<Rightarrow> nat list \<Rightarrow> nat list option" where
  "occupy_grid cfg nof_slots_grid_is_busy occupy_grid_slot occupy_grid_slot_cnt filled =
     (if occupy_grid_slot_cnt < nof_slots_grid_is_busy
      then (if is_dl_enabled cfg occupy_grid_slot
            then occupy_grid cfg nof_slots_grid_is_busy (occupy_grid_slot + 1)
                   (occupy_grid_slot_cnt + 1) (filled @ [occupy_grid_slot])
            else occupy_grid cfg nof_slots_grid_is_busy (occupy_grid_slot + 1)
                   occupy_grid_slot_cnt filled)
      else Some filled)"

declare get_next_dl_slot.simps [code]
declare skip_occupied_dl_slots.simps [code]
declare skip_to_pucch_compatible_slot.simps [code]
declare occupy_grid.simps [code]

text \<open>The condition under which the last loop of the helper stops at a slot.\<close>

definition pucch_compatible_dl_slot :: "cell_configuration \<Rightarrow> nat \<Rightarrow> bool" where
  "pucch_compatible_dl_slot cfg s =
     (k1_falls_on_ul cfg s \<and> is_dl_enabled cfg s \<and> \<not> is_csi_rs_slot cfg s)"

subsection \<open>The SRB0 scheduler\<close>

text \<open>
  Modelled from the spec: the SRB0 scheduler (\<open>ue_srb0_scheduler\<close>), the resource grid
  and the PDCCH and PUCCH allocators are not under src/. Per invocation and for each
  fallback UE with pending bytes on SRB0, the scheduler attempts the allocation at the
  earliest eligible DL slot, from the current slot on: it advances the candidate slot
  past slots whose grid is full, slots excluded by the slot format (CSI-RS) and slots
  from which no acknowledgment timing offset reaches an UL-capable slot, until it finds
  a slot or the lookahead bound is exhausted; then the request stays pending for a
  later invocation. A grant reserves the PUCCH at the first offset that falls on an
  UL-capable slot. The minimum time-domain offset \<open>k0\<close> is 0, as every test of the file
  configures it: the PDCCH and the PDSCH are in one slot. Whether the DL grid of a slot
  is full is a parameter (a function of the grants committed so far).
\<close>

record srb0_grant =
  grant_ue :: nat
  pdcch_slot :: nat
  pdsch_slot :: nat
  pucch_slot :: nat

record srb0_sched =
  pending_ues :: "nat list"
  committed :: "srb0_grant list"

definition srb0_slot_eligible :: "cell_configuration \<Rightarrow> (nat \<Rightarrow> bool) \<Rightarrow> nat \<Rightarrow> bool" where
  "srb0_slot_eligible cfg slot_full s =
     (is_dl_enabled cfg s \<and> \<not> is_csi_rs_slot cfg s \<and> \<not> slot_full s \<and> k1_falls_on_ul cfg s)"

definition schedule_srb0 ::
  "cell_configuration \<Rightarrow> (nat \<Rightarrow> bool) \<Rightarrow> nat \<Rightarrow> nat \<Rightarrow> nat \<Rightarrow> srb0_grant option" where
  "schedule_srb0 cfg slot_full max_lookahead sl u =
     (case find (srb0_slot_eligible cfg slot_full) [sl ..< sl + max_lookahead + 1] of
        None \<Rightarrow> None
      | Some s \<Rightarrow>
          (case find (\<lambda>k1. is_ul_enabled cfg (s + k1)) dci_1_0_k1_values of
             None \<Rightarrow> None
           | Some k1 \<Rightarrow>
               Some \<lparr>grant_ue = u, pdcch_slot = s, pdsch_slot = s, pucch_slot = s + k1\<rparr>))"

fun schedule_ues ::
  "cell_configuration \<Rightarrow> (srb0_grant list \<Rightarrow> nat \<Rightarrow> bool) \<Rightarrow> nat \<Rightarrow> nat \<Rightarrow> nat list
     \<Rightarrow> srb0_grant list \<Rightarrow> nat list \<times> srb0_grant list" where
  "schedule_ues cfg grid_full max_lookahead sl [] grants = ([], grants)"
| "schedule_ues cfg grid_full max_lookahead sl (u # us) grants =
     (case schedule_srb0 cfg (grid_full grants) max_lookahead sl u of
        None \<Rightarrow>
          (case schedule_ues cfg grid_full max_lookahead sl us grants of
             (still_pending, grants') \<Rightarrow> (u # still_pending, grants'))
      | Some g \<Rightarrow> schedule_ues cfg grid_full max_lookahead sl us (grants @ [g]))"

text \<open>
  What drives the scheduler: a DL buffer state indication for SRB0 of a UE
  (\<open>handle_dl_buffer_state_indication_srb\<close>), and \<open>run_slot\<close> at a slot.
\<close>

datatype sched_event = BufferState nat | RunSlot nat

fun sched_step ::
  "cell_configuration \<Rightarrow> (srb0_grant list \<Rightarrow> nat \<Rightarrow> bool) \<Rightarrow> nat \<Rightarrow> srb0_sched \<Rightarrow> sched_event
     \<Rightarrow> srb0_sched" where
  "sched_step cfg grid_full max_lookahead st (BufferState u) =
     st\<lparr>pending_ues := pending_ues st @ [u]\<rparr>"
| "sched_step cfg grid_full max_lookahead st (RunSlot sl) =
     (case schedule_ues cfg grid_full max_lookahead sl (pending_ues st) (committed st) of
        (still_pending, grants) \<Rightarrow> \<lparr>pending_ues = still_pending, committed = grants\<rparr>)"

definition run_events ::
  "cell_configuration \<Rightarrow> (srb0_grant list \<Rightarrow> nat \<Rightarrow> bool) \<Rightarrow> nat \<Rightarrow> sched_event list \<Rightarrow> srb0_sched
     \<Rightarrow> srb0_sched" where
  "run_events cfg grid_full max_lookahead evs st = foldl (sched_step cfg grid_full max_lookahead) st evs"

text \<open>A grant whose PDCCH and PDSCH slots are DL-capable and whose PUCCH slot is UL-capable.\<close>

definition grant_slots_ok :: "cell_configuration \<Rightarrow> srb0_grant \<Rightarrow> bool" where
  "grant_slots_ok cfg g =
     (is_dl_enabled cfg (pdcch_slot g) \<and> is_dl_enabled cfg (pdsch_slot g) \<and>
      is_ul_enabled cfg (pucch_slot g))"

section \<open>Example inputs\<close>

definition ex_cell :: "nat \<Rightarrow> slot_point option \<Rightarrow> slot_point option \<Rightarrow> u32 \<Rightarrow> ue_cell" where
  "ex_cell d pdsch pusch h =
     \<lparr>ue_cell_cfg = \<lparr>cell_index = d, cell_cfg_ded = 0\<rparr>,
      last_pdsch_allocated_slot = pdsch, last_pusch_allocated_slot = pusch,
      harqs = \<lparr>total_ul_bytes_waiting_ack = h\<rparr>, is_fallback = False\<rparr>"

text \<open>
  A UE with cells at the DU cell indices 0 and 3, which have 100 and 50 UL bytes waiting
  for an acknowledgment.
\<close>

definition ex_ue_ul :: "u32 \<Rightarrow> bool \<Rightarrow> ue" where
  "ex_ue_ul pending sr =
     \<lparr>ue_ded_cfg = \<lparr>cfg_cells = [], logical_channels = []\<rparr>,
      ue_du_cells = (\<lambda>d. if d = 0 then Some (ex_cell 0 None None 100)
                         else if d = 3 then Some (ex_cell 3 None None 50) else None),
      ue_cells = [Some 0, Some 3],
      dl_lc_ch_mgr = \<lparr>pending_con_res_id = False, dl_buf_st = (\<lambda>l. 0)\<rparr>,
      ul_lc_ch_mgr = \<lparr>ul_pending_bytes = pending, has_pending_sr = sr\<rparr>\<rparr>"

text \<open>
  A fallback UE that still owes the contention resolution MAC CE, with \<open>b0\<close> bytes
  pending on SRB0 and \<open>b1\<close> on SRB1.
\<close>

definition ex_ue_dl :: "u32 \<Rightarrow> u32 \<Rightarrow> ue" where
  "ex_ue_dl b0 b1 =
     \<lparr>ue_ded_cfg = \<lparr>cfg_cells = [], logical_channels = []\<rparr>,
      ue_du_cells = (\<lambda>d. None),
      ue_cells = [],
      dl_lc_ch_mgr = \<lparr>pending_con_res_id = True,
                      dl_buf_st = (\<lambda>l. if l = 0 then b0 else if l = 1 then b1 else 0)\<rparr>,
      ul_lc_ch_mgr = \<lparr>ul_pending_bytes = 0, has_pending_sr = False\<rparr>\<rparr>"


text \<open>
  Collaborators for the examples: a new cell starts with no marker and no pending HARQ
  bytes, a reconfiguration replaces the configuration of the cell in place, and
  \<open>pcell_cfg()\<close> fails on a configuration with no cell. A new configuration with the
  cells 0 and 2, and a UE that has the cells 0 and 5.
\<close>

definition ex_col :: collaborators where
  "ex_col =
     \<lparr>dl_configure = (\<lambda>chs m. m\<lparr>dl_buf_st := (\<lambda>l. if l \<in> set chs then dl_buf_st m l else 0)\<rparr>),
      ul_configure = (\<lambda>chs m. m),
      make_ue_cell = (\<lambda>c. \<lparr>ue_cell_cfg = c, last_pdsch_allocated_slot = None,
                             last_pusch_allocated_slot = None,
                             harqs = \<lparr>total_ul_bytes_waiting_ack = 0\<rparr>, is_fallback = False\<rparr>),
      reconfigure_ue_cell = (\<lambda>c cell. cell\<lparr>ue_cell_cfg := c\<rparr>),
      new_dl_lc_ch_mgr = \<lparr>pending_con_res_id = False, dl_buf_st = (\<lambda>l. 0)\<rparr>,
      new_ul_lc_ch_mgr = \<lparr>ul_pending_bytes = 0, has_pending_sr = False\<rparr>,
      pcell_cfg = (\<lambda>cfg. case cfg_cells cfg of [] \<Rightarrow> Inl OutOfRangeAccess | c # cs \<Rightarrow> Inr c)\<rparr>"

text \<open>
  The same collaborators with a \<open>pcell_cfg()\<close> that does not check the number of cells:
  on a configuration with no cell it hands back a cell configuration all the same, so
  that the member initialisers of the constructor complete and its body runs.
\<close>

definition ex_col_unchecked :: collaborators where
  "ex_col_unchecked =
     ex_col\<lparr>pcell_cfg :=
       (\<lambda>cfg. Inr (case cfg_cells cfg of [] \<Rightarrow> \<lparr>cell_index = 0, cell_cfg_ded = 0\<rparr> | c # cs \<Rightarrow> c))\<rparr>"

definition ex_cfg :: ue_configuration where
  "ex_cfg = \<lparr>cfg_cells = [\<lparr>cell_index = 0, cell_cfg_ded = 7\<rparr>, \<lparr>cell_index = 2, cell_cfg_ded = 8\<rparr>],
             logical_channels = [0, 1]\<rparr>"

definition ex_ue_scell :: ue where
  "ex_ue_scell =
     \<lparr>ue_ded_cfg = \<lparr>cfg_cells = [\<lparr>cell_index = 0, cell_cfg_ded = 0\<rparr>, \<lparr>cell_index = 5, cell_cfg_ded = 0\<rparr>],
                    logical_channels = [0, 1]\<rparr>,
      ue_du_cells = (\<lambda>d. if d = 0 then Some (ex_cell 0 None None 100)
                         else if d = 5 then Some (ex_cell 5 (Some \<lparr>numerology = 0, count_val = 17\<rparr>) None 50)
                         else None),
      ue_cells = [Some 0, Some 5],
      dl_lc_ch_mgr = \<lparr>pending_con_res_id = False, dl_buf_st = (\<lambda>l. 0)\<rparr>,
      ul_lc_ch_mgr = \<lparr>ul_pending_bytes = 0, has_pending_sr = False\<rparr>\<rparr>"

definition ex_bwp :: "u32 \<Rightarrow> u32 \<Rightarrow> coreset_configuration option \<Rightarrow> bwp_downlink_common" where
  "ex_bwp a b cs0 =
     \<lparr>generic_params = \<lparr>crbs = \<lparr>start = a, stop = b\<rparr>\<rparr>, pdcch_common = \<lparr>coreset0 = cs0\<rparr>\<rparr>"

definition ex_coreset :: "u32 \<Rightarrow> u32 \<Rightarrow> u32 \<Rightarrow> coreset_configuration" where
  "ex_coreset s a b = \<lparr>get_coreset_start_crb = s, coreset0_crbs = \<lparr>start = a, stop = b\<rparr>\<rparr>"

text \<open>
  A TDD cell of period 10 with 7 DL slots followed by 3 UL slots and CSI-RS in the
  slots 4 and 5 of every 20; and a grid in which a slot is full once it holds a grant.
\<close>

definition ex_tdd :: cell_configuration where
  "ex_tdd = \<lparr>is_dl_enabled = (\<lambda>s. s mod 10 < 7), is_ul_enabled = (\<lambda>s. 7 \<le> s mod 10),
             is_csi_rs_slot = (\<lambda>s. s mod 20 = 4 \<or> s mod 20 = 5)\<rparr>"

definition ex_one_grant_per_slot :: "srb0_grant list \<Rightarrow> nat \<Rightarrow> bool" where
  "ex_one_grant_per_slot grants s = list_ex (\<lambda>g. pdsch_slot g = s) grants"

section \<open>Properties\<close>

subsection \<open>Pending UL bytes\<close>

lemma unat_clamped_sub: "unat (a - min a (b::u32)) = unat a - unat b"
proof (cases "a \<le> b")
  case True
  then show ?thesis by (simp add: min_def word_le_nat_alt)
next
  case False
  then have "b \<le> a" by simp
  then show ?thesis using False by (simp add: min_def unat_sub)
qed

lemma subtract_harq_bytes_sum:
  "list_all (valid_ptr store) ps \<Longrightarrow>
   \<exists>r. subtract_harq_bytes store ps pending = Inr r \<and>
       unat r = unat pending - sum_list (map (harq_bytes_of store) ps)"
proof (induction ps arbitrary: pending)
  case Nil
  then show ?case by simp
next
  case (Cons p ps)
  show ?case
  proof (cases "pending = 0")
    case True
    then show ?thesis by simp
  next
    case False
    from Cons.prems have rest: "list_all (valid_ptr store) ps" and "valid_ptr store p"
      by simp_all
    then obtain c where c: "deref store p = Some c"
      by (auto simp: valid_ptr_def)
    let ?h = "total_ul_bytes_waiting_ack (harqs c)"
    from Cons.IH [OF rest, of "pending - min pending ?h"]
    obtain r where r: "subtract_harq_bytes store ps (pending - min pending ?h) = Inr r"
      and u: "unat r = unat (pending - min pending ?h) - sum_list (map (harq_bytes_of store) ps)"
      by blast
    have "subtract_harq_bytes store (p # ps) pending = Inr r"
      using False c r by simp
    moreover have "unat r = unat pending - sum_list (map (harq_bytes_of store) (p # ps))"
      using u c by (simp add: unat_clamped_sub harq_bytes_of_def)
    ultimately show ?thesis by blast
  qed
qed

text \<open>
  C9. With every pointer of \<open>ue_cells\<close> referring to a cell, \<open>ue::pending_ul_newtx_bytes\<close>
  returns the pending UL bytes of the logical channels minus the sum over the cells of
  the UL bytes waiting for a HARQ acknowledgment, the difference stopping at zero (no
  unsigned wrap-around); when that difference is zero it returns the 512 bytes of the
  scheduling request grant if a scheduling request is pending, and zero otherwise.
\<close>

theorem pending_ul_newtx_bytes_clamped:
  assumes "list_all (valid_ptr (ue_du_cells u)) (ue_cells u)"
  shows "\<exists>r. pending_ul_newtx_bytes u = Inr r \<and>
           unat r =
             (let d = unat (ul_pending_bytes (ul_lc_ch_mgr u))
                      - sum_list (map (harq_bytes_of (ue_du_cells u)) (ue_cells u))
              in if d > 0 then d else if has_pending_sr (ul_lc_ch_mgr u) then 512 else 0)"
proof -
  from subtract_harq_bytes_sum [OF assms, of "ul_pending_bytes (ul_lc_ch_mgr u)"]
  obtain p where p: "subtract_harq_bytes (ue_du_cells u) (ue_cells u) (ul_pending_bytes (ul_lc_ch_mgr u)) = Inr p"
    and u: "unat p = unat (ul_pending_bytes (ul_lc_ch_mgr u))
                      - sum_list (map (harq_bytes_of (ue_du_cells u)) (ue_cells u))"
    by blast
  have pos: "(p > 0) = (unat p > 0)"
    by (simp add: word_greater_zero_iff unat_gt_0)
  show ?thesis
    using p u pos by (simp add: pending_ul_newtx_bytes_def SR_GRANT_BYTES_def Let_def)
qed

theorem pending_ul_newtx_bytes_clamped_witness:
  "list_all (valid_ptr (ue_du_cells (ex_ue_ul 120 True))) (ue_cells (ex_ue_ul 120 True)) \<and>
   pending_ul_newtx_bytes (ex_ue_ul 120 True) = Inr 512 \<and>
   pending_ul_newtx_bytes (ex_ue_ul 170 True) = Inr 20"
  using pending_ul_newtx_bytes_clamped [of "ex_ue_ul 120 True"]
  by (simp add: ex_ue_ul_def ex_cell_def valid_ptr_def deref_def pending_ul_newtx_bytes_def
      SR_GRANT_BYTES_def)

subsection \<open>Fallback transport block\<close>

lemma allocate_ce_eq:
  "allocate_ue_con_res_id_mac_ce ce_size tb mgr tbs =
     (con_res_ce_bytes ce_size mgr tbs,
      tb\<lparr>lc_chs_to_sched := lc_chs_to_sched tb @ con_res_subpdu ce_size mgr tbs\<rparr>,
      mgr\<lparr>pending_con_res_id := pending_con_res_id mgr \<and> \<not> ce_size \<le> tbs\<rparr>)"
  by (cases "pending_con_res_id mgr \<and> ce_size \<le> tbs")
     (auto simp: allocate_ue_con_res_id_mac_ce_def con_res_ce_bytes_def con_res_subpdu_def)

lemma build_fits:
  assumes "srb0_fits ce_size (dl_lc_ch_mgr u) tbs"
  shows "build_dl_fallback_transport_block_info ce_size tb tbs u =
     (con_res_ce_bytes ce_size (dl_lc_ch_mgr u) tbs + dl_pending_bytes (dl_lc_ch_mgr u) LCID_SRB0,
      tb\<lparr>lc_chs_to_sched := lc_chs_to_sched tb @ con_res_subpdu ce_size (dl_lc_ch_mgr u) tbs @
           [\<lparr>lcid = SDU LCID_SRB0, sched_bytes = dl_pending_bytes (dl_lc_ch_mgr u) LCID_SRB0\<rparr>]\<rparr>,
      u\<lparr>dl_lc_ch_mgr := (dl_lc_ch_mgr u)\<lparr>pending_con_res_id := pending_con_res_id (dl_lc_ch_mgr u) \<and> \<not> ce_size \<le> tbs,
                       dl_buf_st := (dl_buf_st (dl_lc_ch_mgr u))(LCID_SRB0 := 0)\<rparr>\<rparr>)"
proof -
  let ?B = "dl_buf_st (dl_lc_ch_mgr u) LCID_SRB0"
  let ?rem = "tbs - con_res_ce_bytes ce_size (dl_lc_ch_mgr u) tbs"
  from assms have pos: "?B \<noteq> 0" and le: "?B \<le> ?rem"
    by (auto simp: srb0_fits_def dl_pending_bytes_def)
  from le have m: "min ?rem ?B = ?B" by (simp add: min_absorb2)
  show ?thesis
    using pos le m
    by (simp add: build_dl_fallback_transport_block_info_def allocate_ce_eq
        has_pending_bytes_def dl_pending_bytes_def allocate_mac_sdus_def Let_def word_greater_zero_iff)
qed

lemma build_not_fits:
  assumes "\<not> srb0_fits ce_size (dl_lc_ch_mgr u) tbs"
  shows "build_dl_fallback_transport_block_info ce_size tb tbs u =
     (let ce = con_res_ce_bytes ce_size (dl_lc_ch_mgr u) tbs;
          n = min (tbs - ce) (dl_pending_bytes (dl_lc_ch_mgr u) LCID_SRB1)
      in (ce + n,
      tb\<lparr>lc_chs_to_sched := lc_chs_to_sched tb @ con_res_subpdu ce_size (dl_lc_ch_mgr u) tbs @
           (if n = 0 then [] else [\<lparr>lcid = SDU LCID_SRB1, sched_bytes = n\<rparr>])\<rparr>,
      u\<lparr>dl_lc_ch_mgr := (dl_lc_ch_mgr u)\<lparr>pending_con_res_id := pending_con_res_id (dl_lc_ch_mgr u) \<and> \<not> ce_size \<le> tbs,
                       dl_buf_st := (dl_buf_st (dl_lc_ch_mgr u))(LCID_SRB1 := dl_pending_bytes (dl_lc_ch_mgr u) LCID_SRB1 - n)\<rparr>\<rparr>))"
  using assms
  apply (simp add: build_dl_fallback_transport_block_info_def allocate_ce_eq srb0_fits_def
      has_pending_bytes_def dl_pending_bytes_def allocate_mac_sdus_def Let_def)
  apply (auto simp: fun_eq_iff)
  done

lemma con_res_ce_bytes_le: "con_res_ce_bytes ce_size mgr tbs \<le> tbs"
  by (simp add: con_res_ce_bytes_def)

lemma unat_total_no_wrap:
  assumes "(c::u32) \<le> t" "b \<le> t - c"
  shows "unat (c + b) = unat c + unat b" "unat c + unat b \<le> unat t"
proof -
  have d: "unat (t - c) = unat t - unat c" using assms(1) by (simp add: unat_sub)
  have "unat c \<le> unat t" using assms(1) by (simp add: word_le_nat_alt)
  moreover have "unat b \<le> unat t - unat c" using assms(2) d by (simp add: word_le_nat_alt)
  ultimately show le: "unat c + unat b \<le> unat t" by simp
  have "unat t < 2 ^ LENGTH(32)" by (rule unsigned_less)
  with le have "unat c + unat b < 2 ^ LENGTH(32)" by simp
  then show "unat (c + b) = unat c + unat b" by (rule unat_add_lem [THEN iffD1])
qed

lemma SRB0_neq_SRB1: "LCID_SRB0 \<noteq> LCID_SRB1"
  by (simp add: LCID_SRB0_def LCID_SRB1_def)

lemma carries_con_res: "carries (con_res_subpdu ce_size mgr tbs @ xs) l = carries xs l"
  by (simp add: carries_def con_res_subpdu_def)

lemma added_append: "added_subpdus tb (tb\<lparr>lc_chs_to_sched := lc_chs_to_sched tb @ xs\<rparr>) = xs"
  by (simp add: added_subpdus_def)

text \<open>
  C1. For a UE with \<open>B > 0\<close> bytes pending on SRB0 and any transport block size:
  \<open>ue::build_dl_fallback_transport_block_info\<close> adds an SRB0 subPDU to the block if and
  only if \<open>B\<close> is at most what the contention resolution MAC CE leaves of the block.
  When it does, the block gets the MAC CE (if due) and one SRB0 subPDU of all \<open>B\<close> bytes,
  the returned byte count is the MAC CE's bytes plus \<open>B\<close> without wrap-around and within
  the block size, so the block size is at least \<open>B\<close>, and nothing stays pending on SRB0.
  When it does not, SRB0 keeps its pending bytes and the block gets the MAC CE (if due)
  and SRB1's bytes as far as they fit.
\<close>

theorem fallback_tb_srb0_all_or_nothing:
  assumes pos: "dl_pending_bytes (dl_lc_ch_mgr u) LCID_SRB0 > 0"
      and res: "build_dl_fallback_transport_block_info ce_size tb_info tb_size_bytes u = (total_bytes, tb', u')"
  shows "(carries (added_subpdus tb_info tb') LCID_SRB0 \<longleftrightarrow>
            dl_pending_bytes (dl_lc_ch_mgr u) LCID_SRB0
              \<le> tb_size_bytes - con_res_ce_bytes ce_size (dl_lc_ch_mgr u) tb_size_bytes) \<and>
         (carries (added_subpdus tb_info tb') LCID_SRB0 \<longrightarrow>
            added_subpdus tb_info tb' =
              con_res_subpdu ce_size (dl_lc_ch_mgr u) tb_size_bytes @
              [\<lparr>lcid = SDU LCID_SRB0, sched_bytes = dl_pending_bytes (dl_lc_ch_mgr u) LCID_SRB0\<rparr>] \<and>
            unat total_bytes = unat (con_res_ce_bytes ce_size (dl_lc_ch_mgr u) tb_size_bytes)
                         + unat (dl_pending_bytes (dl_lc_ch_mgr u) LCID_SRB0) \<and>
            unat total_bytes \<le> unat tb_size_bytes \<and>
            dl_pending_bytes (dl_lc_ch_mgr u) LCID_SRB0 \<le> tb_size_bytes \<and>
            dl_pending_bytes (dl_lc_ch_mgr u') LCID_SRB0 = 0) \<and>
         (\<not> carries (added_subpdus tb_info tb') LCID_SRB0 \<longrightarrow>
            (let n = min (tb_size_bytes - con_res_ce_bytes ce_size (dl_lc_ch_mgr u) tb_size_bytes)
                         (dl_pending_bytes (dl_lc_ch_mgr u) LCID_SRB1)
             in added_subpdus tb_info tb' =
                  con_res_subpdu ce_size (dl_lc_ch_mgr u) tb_size_bytes @
                  (if n = 0 then [] else [\<lparr>lcid = SDU LCID_SRB1, sched_bytes = n\<rparr>])) \<and>
            dl_pending_bytes (dl_lc_ch_mgr u') LCID_SRB0 = dl_pending_bytes (dl_lc_ch_mgr u) LCID_SRB0)"
proof (cases "srb0_fits ce_size (dl_lc_ch_mgr u) tb_size_bytes")
  case True
  let ?ce = "con_res_ce_bytes ce_size (dl_lc_ch_mgr u) tb_size_bytes"
  let ?B = "dl_pending_bytes (dl_lc_ch_mgr u) LCID_SRB0"
  from True have le: "?B \<le> tb_size_bytes - ?ce" by (simp add: srb0_fits_def)
  from res build_fits [OF True, of tb_info]
  have t: "total_bytes = ?ce + ?B"
    and tb: "tb' = tb_info\<lparr>lc_chs_to_sched := lc_chs_to_sched tb_info @
               con_res_subpdu ce_size (dl_lc_ch_mgr u) tb_size_bytes @ [\<lparr>lcid = SDU LCID_SRB0, sched_bytes = ?B\<rparr>]\<rparr>"
    and u': "dl_buf_st (dl_lc_ch_mgr u') LCID_SRB0 = 0"
    by auto
  have a: "added_subpdus tb_info tb' =
             con_res_subpdu ce_size (dl_lc_ch_mgr u) tb_size_bytes @ [\<lparr>lcid = SDU LCID_SRB0, sched_bytes = ?B\<rparr>]"
    unfolding tb by (rule added_append)
  have c: "carries (added_subpdus tb_info tb') LCID_SRB0"
    unfolding a carries_con_res by (simp add: carries_def)
  note nw = unat_total_no_wrap [OF con_res_ce_bytes_le le]
  from nw have "unat ?B \<le> unat tb_size_bytes" by simp
  then have fit: "?B \<le> tb_size_bytes" by (simp add: word_le_nat_alt)
  show ?thesis
    using a c le nw u' fit by (simp add: t dl_pending_bytes_def)
next
  case False
  let ?ce = "con_res_ce_bytes ce_size (dl_lc_ch_mgr u) tb_size_bytes"
  let ?n = "min (tb_size_bytes - ?ce) (dl_pending_bytes (dl_lc_ch_mgr u) LCID_SRB1)"
  from False pos have nle: "\<not> dl_pending_bytes (dl_lc_ch_mgr u) LCID_SRB0 \<le> tb_size_bytes - ?ce"
    by (simp add: srb0_fits_def)
  from res build_not_fits [OF False, of tb_info]
  have tb: "tb' = tb_info\<lparr>lc_chs_to_sched := lc_chs_to_sched tb_info @
               con_res_subpdu ce_size (dl_lc_ch_mgr u) tb_size_bytes @
               (if ?n = 0 then [] else [\<lparr>lcid = SDU LCID_SRB1, sched_bytes = ?n\<rparr>])\<rparr>"
    and u': "dl_buf_st (dl_lc_ch_mgr u') LCID_SRB0 = dl_buf_st (dl_lc_ch_mgr u) LCID_SRB0"
    using SRB0_neq_SRB1 by (auto simp: Let_def)
  have a: "added_subpdus tb_info tb' =
             con_res_subpdu ce_size (dl_lc_ch_mgr u) tb_size_bytes @
               (if ?n = 0 then [] else [\<lparr>lcid = SDU LCID_SRB1, sched_bytes = ?n\<rparr>])"
    unfolding tb by (rule added_append)
  have c: "\<not> carries (added_subpdus tb_info tb') LCID_SRB0"
    unfolding a carries_con_res using SRB0_neq_SRB1 by (simp add: carries_def)
  show ?thesis
    using a c nle u' by (simp add: dl_pending_bytes_def Let_def)
qed

theorem fallback_tb_srb0_all_or_nothing_witness:
  "dl_pending_bytes (dl_lc_ch_mgr (ex_ue_dl 101 40)) LCID_SRB0 > 0 \<and>
   build_dl_fallback_transport_block_info 7 \<lparr>lc_chs_to_sched = []\<rparr> 120 (ex_ue_dl 101 40) =
     (108,
      \<lparr>lc_chs_to_sched = [\<lparr>lcid = UE_CON_RES_ID, sched_bytes = 7\<rparr>,
                          \<lparr>lcid = SDU LCID_SRB0, sched_bytes = 101\<rparr>]\<rparr>,
      (ex_ue_dl 101 40)\<lparr>dl_lc_ch_mgr :=
         \<lparr>pending_con_res_id = False,
          dl_buf_st = (\<lambda>l. if l = 0 then 0 else if l = 1 then 40 else 0)\<rparr>\<rparr>) \<and>
   carries (added_subpdus \<lparr>lc_chs_to_sched = []\<rparr>
              \<lparr>lc_chs_to_sched = [\<lparr>lcid = UE_CON_RES_ID, sched_bytes = 7\<rparr>,
                                  \<lparr>lcid = SDU LCID_SRB0, sched_bytes = 101\<rparr>]\<rparr>) LCID_SRB0 \<and>
   (101 :: u32) \<le> 120 - con_res_ce_bytes 7 (dl_lc_ch_mgr (ex_ue_dl 101 40)) 120"
proof -
  have pos: "dl_pending_bytes (dl_lc_ch_mgr (ex_ue_dl 101 40)) LCID_SRB0 > 0"
    by (simp add: ex_ue_dl_def dl_pending_bytes_def LCID_SRB0_def)
  have res: "build_dl_fallback_transport_block_info 7 \<lparr>lc_chs_to_sched = []\<rparr> 120 (ex_ue_dl 101 40) =
     (108,
      \<lparr>lc_chs_to_sched = [\<lparr>lcid = UE_CON_RES_ID, sched_bytes = 7\<rparr>,
                          \<lparr>lcid = SDU LCID_SRB0, sched_bytes = 101\<rparr>]\<rparr>,
      (ex_ue_dl 101 40)\<lparr>dl_lc_ch_mgr :=
         \<lparr>pending_con_res_id = False,
          dl_buf_st = (\<lambda>l. if l = 0 then 0 else if l = 1 then 40 else 0)\<rparr>\<rparr>)"
    by (simp add: build_dl_fallback_transport_block_info_def allocate_ue_con_res_id_mac_ce_def
        allocate_mac_sdus_def has_pending_bytes_def dl_pending_bytes_def ex_ue_dl_def
        LCID_SRB0_def LCID_SRB1_def fun_eq_iff)
  have c: "carries (added_subpdus \<lparr>lc_chs_to_sched = []\<rparr>
              \<lparr>lc_chs_to_sched = [\<lparr>lcid = UE_CON_RES_ID, sched_bytes = 7\<rparr>,
                                  \<lparr>lcid = SDU LCID_SRB0, sched_bytes = 101\<rparr>]\<rparr>) LCID_SRB0"
    by (simp add: carries_def added_subpdus_def)
  have f: "(101 :: u32) \<le> 120 - con_res_ce_bytes 7 (dl_lc_ch_mgr (ex_ue_dl 101 40)) 120"
    by (simp add: con_res_ce_bytes_def ex_ue_dl_def)
  from fallback_tb_srb0_all_or_nothing [OF pos res] pos res c f
  show ?thesis
    by blast
qed



subsection \<open>CRB limits\<close>

lemma get_ra_crb_limits_other:
  "\<not> (dci_fmt = f1_0 \<and> is_common_search_space ss_cfg) \<Longrightarrow>
   get_ra_crb_limits dci_fmt init_dl_bwp active_dl_bwp ss_cfg cs_cfg = crbs (generic_params active_dl_bwp)"
  by (auto simp: get_ra_crb_limits_def Let_def)

lemma get_ra_crb_limits_fallback:
  "dci_fmt = f1_0 \<Longrightarrow> is_common_search_space ss_cfg \<Longrightarrow>
   get_ra_crb_limits dci_fmt init_dl_bwp active_dl_bwp ss_cfg cs_cfg =
     \<lparr>start = get_coreset_start_crb cs_cfg,
      stop = get_coreset_start_crb cs_cfg +
             min (stop (crbs (generic_params active_dl_bwp)) - get_coreset_start_crb cs_cfg)
                 (fallback_width init_dl_bwp)\<rparr>"
  by (simp add: get_ra_crb_limits_def fallback_width_def resize_def interval_length_def Let_def split: option.splits)

lemma unat_start_plus_clip:
  fixes s e w :: u32
  assumes le: "s \<le> e"
  shows "unat (s + min (e - s) w) = unat s + min (unat e - unat s) (unat w)"
proof -
  have d: "unat (e - s) = unat e - unat s" using le by (simp add: unat_sub)
  have m: "unat (min (e - s) w) = min (unat e - unat s) (unat w)"
    using d by (simp add: min_def word_le_nat_alt)
  have "unat s \<le> unat e" using le by (simp add: word_le_nat_alt)
  then have "unat s + unat (min (e - s) w) \<le> unat e" using m by simp
  moreover have "unat e < 2 ^ LENGTH(32)" by (rule unsigned_less)
  ultimately have "unat s + unat (min (e - s) w) < 2 ^ LENGTH(32)" by simp
  then have "unat (s + min (e - s) w) = unat s + unat (min (e - s) w)"
    by (rule unat_add_lem [THEN iffD1])
  then show ?thesis using m by simp
qed

lemma clip_inside_bwp:
  fixes a s e w :: u32
  assumes "a \<le> s" "s \<le> e"
  shows "min (e - s) w = min (e - s) (min (e - a) w)"
proof -
  have "unat (e - s) = unat e - unat s" using assms by (simp add: unat_sub)
  moreover have "unat (e - a) = unat e - unat a" using assms by (simp add: unat_sub)
  moreover have "unat a \<le> unat s" using assms by (simp add: word_le_nat_alt)
  ultimately have "unat (e - s) \<le> unat (e - a)" by simp
  then have "e - s \<le> e - a" by (simp add: word_le_nat_alt)
  then have "min (e - s) (e - a) = e - s" by (rule min_absorb1)
  then show ?thesis by (simp add: min.assoc [symmetric])
qed

text \<open>
  C2 (amended). \<open>get_ra_crb_limits\<close> returns the CRBs of the active BWP, except for
  DCI format 1_0 on a common search space: then the interval starts at the CORESET's
  start CRB and its length is the minimum of the distance from the CORESET's start CRB
  to the stop of the active BWP and of the coreset0 width when the initial BWP
  configures coreset0, else the initial BWP width. With the CORESET start not past the
  stop of the active BWP nothing wraps around; with the CORESET start inside the active
  BWP that length is the interval from the CORESET start to the stop of the BWP clipped
  to the minimum of the active BWP width and that coreset0 or initial BWP width.
\<close>

theorem get_ra_crb_limits_fallback_clip:
  "(\<not> (dci_fmt = f1_0 \<and> is_common_search_space ss_cfg) \<longrightarrow>
      get_ra_crb_limits dci_fmt init_dl_bwp active_dl_bwp ss_cfg cs_cfg = crbs (generic_params active_dl_bwp)) \<and>
   (dci_fmt = f1_0 \<and> is_common_search_space ss_cfg \<longrightarrow>
      start (get_ra_crb_limits dci_fmt init_dl_bwp active_dl_bwp ss_cfg cs_cfg) = get_coreset_start_crb cs_cfg \<and>
      interval_length (get_ra_crb_limits dci_fmt init_dl_bwp active_dl_bwp ss_cfg cs_cfg) =
        min (stop (crbs (generic_params active_dl_bwp)) - get_coreset_start_crb cs_cfg)
            (fallback_width init_dl_bwp) \<and>
      (get_coreset_start_crb cs_cfg \<le> stop (crbs (generic_params active_dl_bwp)) \<longrightarrow>
         unat (stop (get_ra_crb_limits dci_fmt init_dl_bwp active_dl_bwp ss_cfg cs_cfg)) =
           unat (get_coreset_start_crb cs_cfg) +
           min (unat (stop (crbs (generic_params active_dl_bwp))) - unat (get_coreset_start_crb cs_cfg))
               (unat (fallback_width init_dl_bwp))) \<and>
      (start (crbs (generic_params active_dl_bwp)) \<le> get_coreset_start_crb cs_cfg \<and>
       get_coreset_start_crb cs_cfg \<le> stop (crbs (generic_params active_dl_bwp)) \<longrightarrow>
         interval_length (get_ra_crb_limits dci_fmt init_dl_bwp active_dl_bwp ss_cfg cs_cfg) =
           min (stop (crbs (generic_params active_dl_bwp)) - get_coreset_start_crb cs_cfg)
               (min (interval_length (crbs (generic_params active_dl_bwp))) (fallback_width init_dl_bwp))))"
  using unat_start_plus_clip [of "get_coreset_start_crb cs_cfg" "stop (crbs (generic_params active_dl_bwp))" "fallback_width init_dl_bwp"]
    clip_inside_bwp [of "start (crbs (generic_params active_dl_bwp))" "get_coreset_start_crb cs_cfg" "stop (crbs (generic_params active_dl_bwp))" "fallback_width init_dl_bwp"]
  by (auto simp: get_ra_crb_limits_other get_ra_crb_limits_fallback interval_length_def)

theorem get_ra_crb_limits_fallback_clip_witness:
  "get_ra_crb_limits f1_1 (ex_bwp 0 52 (Some (ex_coreset 0 0 48))) (ex_bwp 0 52 None)
      \<lparr>is_common_search_space = True\<rparr> (ex_coreset 6 0 48) = \<lparr>start = 0, stop = 52\<rparr> \<and>
   get_ra_crb_limits f1_0 (ex_bwp 0 52 (Some (ex_coreset 0 0 48))) (ex_bwp 0 52 None)
      \<lparr>is_common_search_space = True\<rparr> (ex_coreset 6 0 48) = \<lparr>start = 6, stop = 52\<rparr> \<and>
   interval_length (get_ra_crb_limits f1_0 (ex_bwp 0 52 (Some (ex_coreset 0 0 48))) (ex_bwp 0 52 None)
      \<lparr>is_common_search_space = True\<rparr> (ex_coreset 6 0 48)) = 46"
  using get_ra_crb_limits_fallback_clip [of f1_0 "\<lparr>is_common_search_space = True\<rparr>"
          "ex_bwp 0 52 (Some (ex_coreset 0 0 48))" "ex_bwp 0 52 None" "ex_coreset 6 0 48"]
        get_ra_crb_limits_fallback_clip [of f1_1 "\<lparr>is_common_search_space = True\<rparr>"
          "ex_bwp 0 52 (Some (ex_coreset 0 0 48))" "ex_bwp 0 52 None" "ex_coreset 6 0 48"]
  by (simp add: get_ra_crb_limits_def ex_bwp_def ex_coreset_def interval_length_def resize_def fallback_width_def)

text \<open>
  The length is not always within the minimum of the active BWP width and the coreset0
  width: with the active BWP \<open>[10, 62)\<close>, a CORESET that starts at CRB 4 and a coreset0 of
  96 CRBs the result is \<open>[4, 62)\<close>, 58 CRBs long, and that minimum is 52.
\<close>

theorem get_ra_crb_limits_claimed_clip_counterexample:
  "get_ra_crb_limits f1_0 (ex_bwp 0 106 (Some (ex_coreset 0 0 96))) (ex_bwp 10 62 None)
      \<lparr>is_common_search_space = True\<rparr> (ex_coreset 4 0 96) = \<lparr>start = 4, stop = 62\<rparr> \<and>
   interval_length (get_ra_crb_limits f1_0 (ex_bwp 0 106 (Some (ex_coreset 0 0 96))) (ex_bwp 10 62 None)
      \<lparr>is_common_search_space = True\<rparr> (ex_coreset 4 0 96)) = 58 \<and>
   min (interval_length (crbs (generic_params (ex_bwp 10 62 None))))
       (fallback_width (ex_bwp 0 106 (Some (ex_coreset 0 0 96)))) = 52 \<and>
   \<not> interval_length (get_ra_crb_limits f1_0 (ex_bwp 0 106 (Some (ex_coreset 0 0 96))) (ex_bwp 10 62 None)
      \<lparr>is_common_search_space = True\<rparr> (ex_coreset 4 0 96))
     \<le> min (interval_length (crbs (generic_params (ex_bwp 10 62 None))))
           (fallback_width (ex_bwp 0 106 (Some (ex_coreset 0 0 96))))"
  by (simp add: get_ra_crb_limits_def ex_bwp_def ex_coreset_def interval_length_def resize_def fallback_width_def)

subsection \<open>Stale allocation markers\<close>















subsection \<open>Reconfiguration\<close>

lemma find_cell_index:
  assumes "c \<in> set cells"
  shows "\<exists>c0. find (\<lambda>x. cell_index x = cell_index c) cells = Some c0 \<and> cell_index c0 = cell_index c"
proof (cases "find (\<lambda>x. cell_index x = cell_index c) cells")
  case None
  with assms show ?thesis by (auto simp: find_None_iff)
next
  case (Some c0)
  then show ?thesis by (auto simp: find_Some_iff)
qed

lemma find_cell_index_distinct:
  assumes "distinct (map cell_index cells)" "c \<in> set cells"
  shows "find (\<lambda>x. cell_index x = cell_index c) cells = Some c"
proof -
  from find_cell_index [OF assms(2)] obtain c0 where
    f: "find (\<lambda>x. cell_index x = cell_index c) cells = Some c0" and i: "cell_index c0 = cell_index c"
    by blast
  from f have "c0 \<in> set cells" by (auto simp: find_Some_iff)
  with assms i have "c0 = c" by (meson distinct_map inj_onD)
  with f show ?thesis by simp
qed

lemma create_or_reconfigure_cell_step:
  assumes "ue_ded_cfg u = cfg" "i < length (cfg_cells cfg)"
  shows "\<exists>c0. ue_cell_cfg_by_du_index cfg (cell_index (cfg_cells cfg ! i)) = Some c0 \<and>
           (\<exists>ptrs. create_or_reconfigure_cell col i u =
              Inr (u\<lparr>ue_du_cells := (ue_du_cells u)(cell_index (cfg_cells cfg ! i) :=
                        Some (apply_cell_cfg col c0 (ue_du_cells u (cell_index (cfg_cells cfg ! i))))),
                     ue_cells := ptrs\<rparr>))"
proof -
  let ?c = "cfg_cells cfg ! i"
  from assms(2) have "?c \<in> set (cfg_cells cfg)" by simp
  from find_cell_index [OF this] obtain c0 where
    f: "ue_cell_cfg_by_du_index cfg (cell_index ?c) = Some c0"
    by (auto simp: ue_cell_cfg_by_du_index_def)
  show ?thesis
  proof (cases "ue_du_cells u (cell_index ?c)")
    case None
    then have "create_or_reconfigure_cell col i u =
              Inr (u\<lparr>ue_du_cells := (ue_du_cells u)(cell_index ?c := Some (apply_cell_cfg col c0 (ue_du_cells u (cell_index ?c)))),
                     ue_cells := (if i \<ge> length (ue_cells u) then resize_ptrs (i + 1) (ue_cells u) else ue_cells u)\<rparr>)"
      using assms f
      by (simp add: create_or_reconfigure_cell_def ue_cell_cfg_by_ue_index_def apply_cell_cfg_def Let_def)
    with f show ?thesis by blast
  next
    case (Some old)
    then have "create_or_reconfigure_cell col i u =
              Inr (u\<lparr>ue_du_cells := (ue_du_cells u)(cell_index ?c := Some (apply_cell_cfg col c0 (ue_du_cells u (cell_index ?c)))),
                     ue_cells := ue_cells u\<rparr>)"
      using assms f
      by (simp add: create_or_reconfigure_cell_def ue_cell_cfg_by_ue_index_def apply_cell_cfg_def Let_def)
    with f show ?thesis by blast
  qed
qed

lemma create_or_reconfigure_cells_frame:
  assumes "\<forall>i\<in>set is. i < length (cfg_cells cfg)"
  shows "ue_ded_cfg u = cfg \<Longrightarrow>
         \<exists>u'. create_or_reconfigure_cells col is u = Inr u' \<and> ue_ded_cfg u' = cfg \<and>
           dl_lc_ch_mgr u' = dl_lc_ch_mgr u \<and> ul_lc_ch_mgr u' = ul_lc_ch_mgr u \<and>
           (\<forall>d. d \<notin> (\<lambda>i. cell_index (cfg_cells cfg ! i)) ` set is \<longrightarrow> ue_du_cells u' d = ue_du_cells u d) \<and>
           (\<forall>d. ue_du_cells u d \<noteq> None \<longrightarrow> ue_du_cells u' d \<noteq> None) \<and>
           (\<forall>i\<in>set is. ue_du_cells u' (cell_index (cfg_cells cfg ! i)) \<noteq> None)"
  using assms
proof (induction "is" arbitrary: u)
  case Nil
  then show ?case by simp
next
  case (Cons i "is")
  from Cons.prems have i: "i < length (cfg_cells cfg)" and rest: "\<forall>j\<in>set is. j < length (cfg_cells cfg)"
    by simp_all
  let ?d = "cell_index (cfg_cells cfg ! i)"
  from create_or_reconfigure_cell_step [OF Cons.prems(1) i, of col]
  obtain c0 ptrs where
    st: "create_or_reconfigure_cell col i u =
              Inr (u\<lparr>ue_du_cells := (ue_du_cells u)(?d := Some (apply_cell_cfg col c0 (ue_du_cells u ?d))),
                     ue_cells := ptrs\<rparr>)"
    by blast
  let ?u1 = "u\<lparr>ue_du_cells := (ue_du_cells u)(?d := Some (apply_cell_cfg col c0 (ue_du_cells u ?d))),
                     ue_cells := ptrs\<rparr>"
  have cfg1: "ue_ded_cfg ?u1 = cfg" using Cons.prems(1) by simp
  from Cons.IH [OF cfg1 rest] obtain u' where
    r: "create_or_reconfigure_cells col is ?u1 = Inr u'" and c: "ue_ded_cfg u' = cfg"
    and m: "dl_lc_ch_mgr u' = dl_lc_ch_mgr ?u1" "ul_lc_ch_mgr u' = ul_lc_ch_mgr ?u1"
    and fr: "\<forall>d. d \<notin> (\<lambda>i. cell_index (cfg_cells cfg ! i)) ` set is \<longrightarrow> ue_du_cells u' d = ue_du_cells ?u1 d"
    and keep: "\<forall>d. ue_du_cells ?u1 d \<noteq> None \<longrightarrow> ue_du_cells u' d \<noteq> None"
    and pres: "\<forall>i\<in>set is. ue_du_cells u' (cell_index (cfg_cells cfg ! i)) \<noteq> None"
    by blast
  have "create_or_reconfigure_cells col (i # is) u = Inr u'" using st r by simp
  moreover have "\<forall>d. d \<notin> (\<lambda>i. cell_index (cfg_cells cfg ! i)) ` set (i # is) \<longrightarrow> ue_du_cells u' d = ue_du_cells u d"
    using fr by auto
  moreover have "\<forall>d. ue_du_cells u d \<noteq> None \<longrightarrow> ue_du_cells u' d \<noteq> None"
    using keep by auto
  moreover have "\<forall>j\<in>set (i # is). ue_du_cells u' (cell_index (cfg_cells cfg ! j)) \<noteq> None"
    using keep pres by auto
  ultimately show ?case using c m by auto
qed

lemma create_or_reconfigure_cells_exact:
  assumes "\<forall>i\<in>set is. i < length (cfg_cells cfg)" "distinct (map cell_index (cfg_cells cfg))"
  shows "ue_ded_cfg u = cfg \<Longrightarrow> distinct is \<Longrightarrow> create_or_reconfigure_cells col is u = Inr u' \<Longrightarrow>
         \<forall>i\<in>set is. ue_du_cells u' (cell_index (cfg_cells cfg ! i)) =
            Some (apply_cell_cfg col (cfg_cells cfg ! i) (ue_du_cells u (cell_index (cfg_cells cfg ! i))))"
  using assms(1)
proof (induction "is" arbitrary: u)
  case Nil
  then show ?case by simp
next
  case (Cons i "is")
  from Cons.prems have i: "i < length (cfg_cells cfg)" and rest: "\<forall>j\<in>set is. j < length (cfg_cells cfg)"
    and di: "i \<notin> set is" and dis: "distinct is"
    by simp_all
  let ?d = "cell_index (cfg_cells cfg ! i)"
  have ci: "cfg_cells cfg ! i \<in> set (cfg_cells cfg)" using i by simp
  from create_or_reconfigure_cell_step [OF Cons.prems(1) i, of col]
  obtain c0 ptrs where c0: "ue_cell_cfg_by_du_index cfg ?d = Some c0" and
    st: "create_or_reconfigure_cell col i u =
              Inr (u\<lparr>ue_du_cells := (ue_du_cells u)(?d := Some (apply_cell_cfg col c0 (ue_du_cells u ?d))),
                     ue_cells := ptrs\<rparr>)"
    by blast
  from c0 find_cell_index_distinct [OF assms(2) ci] have c0e: "c0 = cfg_cells cfg ! i"
    by (simp add: ue_cell_cfg_by_du_index_def)
  let ?u1 = "u\<lparr>ue_du_cells := (ue_du_cells u)(?d := Some (apply_cell_cfg col c0 (ue_du_cells u ?d))),
                     ue_cells := ptrs\<rparr>"
  have cfg1: "ue_ded_cfg ?u1 = cfg" using Cons.prems(1) by simp
  from Cons.prems(3) st have r: "create_or_reconfigure_cells col is ?u1 = Inr u'" by simp
  note ih = Cons.IH [OF cfg1 dis r rest]
  have ne: "cell_index (cfg_cells cfg ! j) \<noteq> ?d" if "j \<in> set is" for j
  proof -
    from that rest di have "j < length (cfg_cells cfg)" "j \<noteq> i" by auto
    with i assms(2) show ?thesis
      by (metis length_map nth_eq_iff_index_eq nth_map)
  qed
  from create_or_reconfigure_cells_frame [OF rest cfg1, of col] r
  have fr: "\<forall>d. d \<notin> (\<lambda>i. cell_index (cfg_cells cfg ! i)) ` set is \<longrightarrow> ue_du_cells u' d = ue_du_cells ?u1 d"
    by auto
  have "?d \<notin> (\<lambda>i. cell_index (cfg_cells cfg ! i)) ` set is"
  proof
    assume "?d \<in> (\<lambda>i. cell_index (cfg_cells cfg ! i)) ` set is"
    then obtain j where "j \<in> set is" "?d = cell_index (cfg_cells cfg ! j)" by (rule imageE)
    with ne [of j] show False by simp
  qed
  with fr have here: "ue_du_cells u' ?d = Some (apply_cell_cfg col (cfg_cells cfg ! i) (ue_du_cells u ?d))"
    using c0e by simp
  show ?case
  proof
    fix j assume j: "j \<in> set (i # is)"
    show "ue_du_cells u' (cell_index (cfg_cells cfg ! j)) =
            Some (apply_cell_cfg col (cfg_cells cfg ! j) (ue_du_cells u (cell_index (cfg_cells cfg ! j))))"
    proof (cases "j = i")
      case True
      with here show ?thesis by simp
    next
      case False
      with j have js: "j \<in> set is" by simp
      from ih js ne [OF js] show ?thesis by simp
    qed
  qed
qed

lemma handle_reconfiguration_request_completes:
  assumes "nof_cells cfg > 0"
  shows "\<exists>u3. create_or_reconfigure_cells col [0 ..< nof_cells cfg]
                 (u\<lparr>ue_ded_cfg := cfg,
                    dl_lc_ch_mgr := dl_configure col (logical_channels cfg) (dl_lc_ch_mgr u),
                    ul_lc_ch_mgr := ul_configure col (logical_channels cfg) (ul_lc_ch_mgr u)\<rparr>) = Inr u3 \<and>
              handle_reconfiguration_request col cfg u = Inr (recompute_cell_mapping u3)"
proof -
  let ?u2 = "u\<lparr>ue_ded_cfg := cfg,
                dl_lc_ch_mgr := dl_configure col (logical_channels cfg) (dl_lc_ch_mgr u),
                ul_lc_ch_mgr := ul_configure col (logical_channels cfg) (ul_lc_ch_mgr u)\<rparr>"
  have b: "\<forall>i\<in>set [0 ..< nof_cells cfg]. i < length (cfg_cells cfg)" by (simp add: nof_cells_def)
  have c: "ue_ded_cfg ?u2 = cfg" by simp
  from create_or_reconfigure_cells_frame [OF b c, of col] obtain u3 where
    "create_or_reconfigure_cells col [0 ..< nof_cells cfg] ?u2 = Inr u3" by blast
  then show ?thesis
    using assms by (simp add: handle_reconfiguration_request_def handle_removed_cells_def Let_def)
qed

lemma handle_reconfiguration_request_cells:
  assumes "handle_reconfiguration_request col cfg u = Inr u'"
  shows "\<exists>u3. create_or_reconfigure_cells col [0 ..< nof_cells cfg]
                 (u\<lparr>ue_ded_cfg := cfg,
                    dl_lc_ch_mgr := dl_configure col (logical_channels cfg) (dl_lc_ch_mgr u),
                    ul_lc_ch_mgr := ul_configure col (logical_channels cfg) (ul_lc_ch_mgr u)\<rparr>) = Inr u3 \<and>
              ue_du_cells u' = ue_du_cells u3"
proof (cases "nof_cells cfg > 0")
  case False
  with assms show ?thesis by (simp add: handle_reconfiguration_request_def)
next
  case True
  from handle_reconfiguration_request_completes [OF True, of col u] obtain u3 where
    r: "create_or_reconfigure_cells col [0 ..< nof_cells cfg]
                 (u\<lparr>ue_ded_cfg := cfg,
                    dl_lc_ch_mgr := dl_configure col (logical_channels cfg) (dl_lc_ch_mgr u),
                    ul_lc_ch_mgr := ul_configure col (logical_channels cfg) (ul_lc_ch_mgr u)\<rparr>) = Inr u3"
    and h: "handle_reconfiguration_request col cfg u = Inr (recompute_cell_mapping u3)"
    by blast
  from h assms have "u' = recompute_cell_mapping u3" by simp
  then have "ue_du_cells u' = ue_du_cells u3" by (simp add: recompute_cell_mapping_def)
  with r show ?thesis by blast
qed

lemma cell_index_image:
  "(\<lambda>i. cell_index (cells ! i)) ` set [0 ..< length cells] = set (map cell_index cells)"
proof -
  have "(\<lambda>i. cell_index (cells ! i)) ` set [0 ..< length cells]
          = cell_index ` ((\<lambda>i. cells ! i) ` set [0 ..< length cells])"
    by (simp only: image_image)
  also have "(\<lambda>i. cells ! i) ` set [0 ..< length cells] = set (map (\<lambda>i. cells ! i) [0 ..< length cells])"
    by (simp only: set_map)
  also have "map (\<lambda>i. cells ! i) [0 ..< length cells] = cells"
    by (rule map_nth)
  finally show ?thesis by (simp only: set_map)
qed

text \<open>
  After a reconfiguration \<open>ue_cells\<close> points to the cells of the new configuration, in
  the order of the UE cell indices, and every pointer refers to a cell: the loops of
  \<open>slot_indication\<close> and \<open>pending_ul_newtx_bytes\<close> read no null pointer. A cell that the
  new configuration does not name stays in \<open>ue_du_cells\<close> but is no longer pointed to.
\<close>

lemma handle_reconfiguration_request_pointers:
  assumes "handle_reconfiguration_request col cfg u = Inr u'"
  shows "ue_cells u' = map (\<lambda>c. Some (cell_index c)) (cfg_cells cfg) \<and>
         list_all (valid_ptr (ue_du_cells u')) (ue_cells u')"
proof -
  have pos: "nof_cells cfg > 0"
    using assms by (cases "nof_cells cfg > 0") (simp_all add: handle_reconfiguration_request_def)
  let ?u2 = "u\<lparr>ue_ded_cfg := cfg,
                dl_lc_ch_mgr := dl_configure col (logical_channels cfg) (dl_lc_ch_mgr u),
                ul_lc_ch_mgr := ul_configure col (logical_channels cfg) (ul_lc_ch_mgr u)\<rparr>"
  let ?is = "[0 ..< nof_cells cfg]"
  from handle_reconfiguration_request_completes [OF pos, of col u] obtain u3 where
    r: "create_or_reconfigure_cells col ?is ?u2 = Inr u3"
    and h: "handle_reconfiguration_request col cfg u = Inr (recompute_cell_mapping u3)"
    by blast
  from h assms have u': "u' = recompute_cell_mapping u3" by simp
  have b: "\<forall>i\<in>set ?is. i < length (cfg_cells cfg)" by (simp add: nof_cells_def)
  have c: "ue_ded_cfg ?u2 = cfg" by simp
  from create_or_reconfigure_cells_frame [OF b c, of col] r
  have cfg3: "ue_ded_cfg u3 = cfg"
    and pres: "\<forall>i\<in>set ?is. ue_du_cells u3 (cell_index (cfg_cells cfg ! i)) \<noteq> None"
    by auto
  have present: "ue_du_cells u3 (cell_index c0) \<noteq> None" if "c0 \<in> set (cfg_cells cfg)" for c0
  proof -
    from that obtain i where "i < length (cfg_cells cfg)" "c0 = cfg_cells cfg ! i"
      by (auto simp: in_set_conv_nth)
    with pres show ?thesis by (simp add: nof_cells_def)
  qed
  have ptr: "get_ptr (ue_du_cells u3) (cell_index c0) = Some (cell_index c0)"
    if "c0 \<in> set (cfg_cells cfg)" for c0
    using present [OF that] by (auto simp: get_ptr_def split: option.splits)
  have m: "ue_cells u' = map (\<lambda>c. Some (cell_index c)) (cfg_cells cfg)"
    unfolding u' recompute_cell_mapping_def using cfg3 ptr by simp
  have s: "ue_du_cells u' = ue_du_cells u3"
    unfolding u' by (simp add: recompute_cell_mapping_def)
  have "list_all (valid_ptr (ue_du_cells u')) (ue_cells u')"
    unfolding m s list_all_iff using present by (auto simp: valid_ptr_def deref_def)
  with m show ?thesis by blast
qed

text \<open>
  C7. After a reconfiguration that \<open>ue::handle_reconfiguration_request\<close> completes: every
  cell of \<open>ue_du_cells\<close> whose DU cell index the new configuration does not contain is
  still there with its state unchanged, no cell that was present is removed, and every
  cell the new configuration names is present; with the cell indices of the new
  configuration distinct, each cell it names is the newly made cell if it was absent
  and the old cell reconfigured in place if it was present.
\<close>

theorem reconfiguration_never_removes_cells:
  assumes "handle_reconfiguration_request col cfg u = Inr u'"
  shows "(\<forall>d. \<not> contains cfg d \<longrightarrow> ue_du_cells u' d = ue_du_cells u d) \<and>
         (\<forall>d. ue_du_cells u d \<noteq> None \<longrightarrow> ue_du_cells u' d \<noteq> None) \<and>
         (\<forall>d. contains cfg d \<longrightarrow> ue_du_cells u' d \<noteq> None) \<and>
         (distinct (map cell_index (cfg_cells cfg)) \<longrightarrow>
            (\<forall>c\<in>set (cfg_cells cfg).
               ue_du_cells u' (cell_index c) =
                 Some (apply_cell_cfg col c (ue_du_cells u (cell_index c)))))"
proof -
  let ?u2 = "u\<lparr>ue_ded_cfg := cfg,
                dl_lc_ch_mgr := dl_configure col (logical_channels cfg) (dl_lc_ch_mgr u),
                ul_lc_ch_mgr := ul_configure col (logical_channels cfg) (ul_lc_ch_mgr u)\<rparr>"
  let ?is = "[0 ..< nof_cells cfg]"
  from handle_reconfiguration_request_cells [OF assms] obtain u3 where
    r: "create_or_reconfigure_cells col ?is ?u2 = Inr u3" and e: "ue_du_cells u' = ue_du_cells u3"
    by blast
  have b: "\<forall>i\<in>set ?is. i < length (cfg_cells cfg)" by (simp add: nof_cells_def)
  have c: "ue_ded_cfg ?u2 = cfg" by simp
  have img: "(\<lambda>i. cell_index (cfg_cells cfg ! i)) ` set ?is = set (map cell_index (cfg_cells cfg))"
    unfolding nof_cells_def by (rule cell_index_image)
  from create_or_reconfigure_cells_frame [OF b c, of col] r
  have fr: "\<forall>d. d \<notin> (\<lambda>i. cell_index (cfg_cells cfg ! i)) ` set ?is \<longrightarrow> ue_du_cells u3 d = ue_du_cells ?u2 d"
    and keep: "\<forall>d. ue_du_cells ?u2 d \<noteq> None \<longrightarrow> ue_du_cells u3 d \<noteq> None"
    and pres: "\<forall>i\<in>set ?is. ue_du_cells u3 (cell_index (cfg_cells cfg ! i)) \<noteq> None"
    by auto
  have p1: "\<forall>d. \<not> contains cfg d \<longrightarrow> ue_du_cells u' d = ue_du_cells u d"
    using fr unfolding img e contains_def by simp
  have p2: "\<forall>d. ue_du_cells u d \<noteq> None \<longrightarrow> ue_du_cells u' d \<noteq> None"
    using keep unfolding e by simp
  have p3: "\<forall>d. contains cfg d \<longrightarrow> ue_du_cells u' d \<noteq> None"
  proof (intro allI impI)
    fix d assume "contains cfg d"
    then have "d \<in> (\<lambda>i. cell_index (cfg_cells cfg ! i)) ` set ?is" unfolding img contains_def .
    then obtain i where "i \<in> set ?is" "d = cell_index (cfg_cells cfg ! i)" by (rule imageE)
    with pres show "ue_du_cells u' d \<noteq> None" unfolding e by blast
  qed
  have p4: "\<forall>c\<in>set (cfg_cells cfg).
               ue_du_cells u' (cell_index c) = Some (apply_cell_cfg col c (ue_du_cells u (cell_index c)))"
    if dist: "distinct (map cell_index (cfg_cells cfg))"
  proof
    fix c0 assume "c0 \<in> set (cfg_cells cfg)"
    then obtain i where i: "i < length (cfg_cells cfg)" "c0 = cfg_cells cfg ! i"
      by (auto simp: in_set_conv_nth)
    then have "i \<in> set ?is" by (simp add: nof_cells_def)
    with create_or_reconfigure_cells_exact [OF b dist c _ r] i
    show "ue_du_cells u' (cell_index c0) = Some (apply_cell_cfg col c0 (ue_du_cells u (cell_index c0)))"
      unfolding e by simp
  qed
  from p1 p2 p3 p4 show ?thesis by blast
qed

text \<open>
  C8. With no cell in the configuration, \<open>ue::handle_reconfiguration_request\<close> stops at
  its assertion with the diagnostic of the source. The constructor of the UE reads
  \<open>pcell_cfg()\<close> in its member initialisers and then calls the function: with no cell it
  never returns a UE, it stops with the same diagnostic of the assertion whenever the read
  of \<open>pcell_cfg()\<close> hands back a cell configuration, and it stops with the failure of that
  read otherwise. With at least one cell the assertion holds and the function completes,
  and so does the constructor when its read of \<open>pcell_cfg()\<close> succeeds.
\<close>

theorem reconfiguration_requires_a_cell:
  "(nof_cells cfg = 0 \<longrightarrow>
      handle_reconfiguration_request col cfg u =
        Inl (AssertionFailure ''Creation of a UE requires at least PCell configuration.'') \<and>
      ue_ctor col \<lparr>cmd_cfg = cfg, starts_in_fallback = fb\<rparr> =
        (case pcell_cfg col cfg of
           Inl e \<Rightarrow> Inl e
         | Inr pcell \<Rightarrow>
             Inl (AssertionFailure ''Creation of a UE requires at least PCell configuration.'')) \<and>
      (\<forall>pcell. pcell_cfg col cfg = Inr pcell \<longrightarrow>
         ue_ctor col \<lparr>cmd_cfg = cfg, starts_in_fallback = fb\<rparr> =
           Inl (AssertionFailure ''Creation of a UE requires at least PCell configuration.'')) \<and>
      (\<forall>e. pcell_cfg col cfg = Inl e \<longrightarrow>
         ue_ctor col \<lparr>cmd_cfg = cfg, starts_in_fallback = fb\<rparr> = Inl e) \<and>
      (\<exists>e. ue_ctor col \<lparr>cmd_cfg = cfg, starts_in_fallback = fb\<rparr> = Inl e)) \<and>
   (nof_cells cfg > 0 \<longrightarrow>
      (\<exists>u'. handle_reconfiguration_request col cfg u = Inr u') \<and>
      ((\<exists>pcell. pcell_cfg col cfg = Inr pcell) \<longrightarrow>
         (\<exists>u'. ue_ctor col \<lparr>cmd_cfg = cfg, starts_in_fallback = fb\<rparr> = Inr u')))"
proof (intro conjI impI allI)
  assume z: "nof_cells cfg = 0"
  then show "handle_reconfiguration_request col cfg u =
        Inl (AssertionFailure ''Creation of a UE requires at least PCell configuration.'')"
    by (simp add: handle_reconfiguration_request_def)
  from z show "ue_ctor col \<lparr>cmd_cfg = cfg, starts_in_fallback = fb\<rparr> =
        (case pcell_cfg col cfg of
           Inl e \<Rightarrow> Inl e
         | Inr pcell \<Rightarrow>
             Inl (AssertionFailure ''Creation of a UE requires at least PCell configuration.''))"
    by (simp add: ue_ctor_def handle_reconfiguration_request_def split: sum.splits)
  from z show "\<exists>e. ue_ctor col \<lparr>cmd_cfg = cfg, starts_in_fallback = fb\<rparr> = Inl e"
    by (simp add: ue_ctor_def handle_reconfiguration_request_def split: sum.splits)
  {
    fix pcell
    assume "pcell_cfg col cfg = Inr pcell"
    with z show "ue_ctor col \<lparr>cmd_cfg = cfg, starts_in_fallback = fb\<rparr> =
           Inl (AssertionFailure ''Creation of a UE requires at least PCell configuration.'')"
      by (simp add: ue_ctor_def handle_reconfiguration_request_def)
  }
  {
    fix e
    assume "pcell_cfg col cfg = Inl e"
    then show "ue_ctor col \<lparr>cmd_cfg = cfg, starts_in_fallback = fb\<rparr> = Inl e"
      by (simp add: ue_ctor_def)
  }
next
  assume p: "nof_cells cfg > 0"
  from handle_reconfiguration_request_completes [OF p, of col u]
  show "\<exists>u'. handle_reconfiguration_request col cfg u = Inr u'" by blast
  assume "\<exists>pcell. pcell_cfg col cfg = Inr pcell"
  then obtain pcell where pc: "pcell_cfg col cfg = Inr pcell" ..
  from handle_reconfiguration_request_completes [OF p, of col]
  obtain u3 where "handle_reconfiguration_request col cfg
         \<lparr>ue_ded_cfg = cfg, ue_du_cells = (\<lambda>d. None), ue_cells = [],
          dl_lc_ch_mgr = new_dl_lc_ch_mgr col, ul_lc_ch_mgr = new_ul_lc_ch_mgr col\<rparr> = Inr (recompute_cell_mapping u3)"
    by blast
  with pc show "\<exists>u'. ue_ctor col \<lparr>cmd_cfg = cfg, starts_in_fallback = fb\<rparr> = Inr u'"
    by (simp add: ue_ctor_def)
qed

theorem reconfiguration_never_removes_cells_witness:
  "\<exists>u'. handle_reconfiguration_request ex_col ex_cfg ex_ue_scell = Inr u' \<and>
        distinct (map cell_index (cfg_cells ex_cfg)) \<and> \<not> contains ex_cfg 5 \<and>
        ue_du_cells u' 5 = Some (ex_cell 5 (Some \<lparr>numerology = 0, count_val = 17\<rparr>) None 50) \<and>
        ue_du_cells u' 0 =
          Some ((ex_cell 0 None None 100)\<lparr>ue_cell_cfg := \<lparr>cell_index = 0, cell_cfg_ded = 7\<rparr>\<rparr>) \<and>
        ue_du_cells u' 2 = Some (make_ue_cell ex_col \<lparr>cell_index = 2, cell_cfg_ded = 8\<rparr>)"
proof -
  have n: "nof_cells ex_cfg > 0" by (simp add: nof_cells_def ex_cfg_def)
  from handle_reconfiguration_request_completes [OF n, of ex_col ex_ue_scell]
  obtain u' where h: "handle_reconfiguration_request ex_col ex_cfg ex_ue_scell = Inr u'" by blast
  have d: "distinct (map cell_index (cfg_cells ex_cfg))" by (simp add: ex_cfg_def)
  have a: "\<not> contains ex_cfg 5" by (simp add: contains_def ex_cfg_def)
  have c0: "\<lparr>cell_index = 0, cell_cfg_ded = 7\<rparr> \<in> set (cfg_cells ex_cfg)"
    and c2: "\<lparr>cell_index = 2, cell_cfg_ded = 8\<rparr> \<in> set (cfg_cells ex_cfg)"
    by (simp_all add: ex_cfg_def)
  note t = reconfiguration_never_removes_cells [OF h]
  from t a have "ue_du_cells u' 5 = ue_du_cells ex_ue_scell 5" by blast
  then have p5: "ue_du_cells u' 5 = Some (ex_cell 5 (Some \<lparr>numerology = 0, count_val = 17\<rparr>) None 50)"
    by (simp add: ex_ue_scell_def)
  from t d c0 have "ue_du_cells u' (cell_index \<lparr>cell_index = 0, cell_cfg_ded = 7\<rparr>) =
      Some (apply_cell_cfg ex_col \<lparr>cell_index = 0, cell_cfg_ded = 7\<rparr>
              (ue_du_cells ex_ue_scell (cell_index \<lparr>cell_index = 0, cell_cfg_ded = 7\<rparr>)))"
    by blast
  then have p0: "ue_du_cells u' 0 =
          Some ((ex_cell 0 None None 100)\<lparr>ue_cell_cfg := \<lparr>cell_index = 0, cell_cfg_ded = 7\<rparr>\<rparr>)"
    by (simp add: ex_ue_scell_def apply_cell_cfg_def ex_col_def)
  from t d c2 have "ue_du_cells u' (cell_index \<lparr>cell_index = 2, cell_cfg_ded = 8\<rparr>) =
      Some (apply_cell_cfg ex_col \<lparr>cell_index = 2, cell_cfg_ded = 8\<rparr>
              (ue_du_cells ex_ue_scell (cell_index \<lparr>cell_index = 2, cell_cfg_ded = 8\<rparr>)))"
    by blast
  then have p2: "ue_du_cells u' 2 = Some (make_ue_cell ex_col \<lparr>cell_index = 2, cell_cfg_ded = 8\<rparr>)"
    by (simp add: ex_ue_scell_def apply_cell_cfg_def)
  from h d a p5 p0 p2 show ?thesis by blast
qed

theorem reconfiguration_requires_a_cell_witness:
  "nof_cells \<lparr>cfg_cells = [], logical_channels = []\<rparr> = 0 \<and>
   handle_reconfiguration_request ex_col \<lparr>cfg_cells = [], logical_channels = []\<rparr> ex_ue_scell =
     Inl (AssertionFailure ''Creation of a UE requires at least PCell configuration.'') \<and>
   pcell_cfg ex_col_unchecked \<lparr>cfg_cells = [], logical_channels = []\<rparr> =
     Inr \<lparr>cell_index = 0, cell_cfg_ded = 0\<rparr> \<and>
   ue_ctor ex_col_unchecked
       \<lparr>cmd_cfg = \<lparr>cfg_cells = [], logical_channels = []\<rparr>, starts_in_fallback = True\<rparr> =
     Inl (AssertionFailure ''Creation of a UE requires at least PCell configuration.'') \<and>
   pcell_cfg ex_col \<lparr>cfg_cells = [], logical_channels = []\<rparr> = Inl OutOfRangeAccess \<and>
   ue_ctor ex_col \<lparr>cmd_cfg = \<lparr>cfg_cells = [], logical_channels = []\<rparr>, starts_in_fallback = True\<rparr> =
     Inl OutOfRangeAccess \<and>
   nof_cells ex_cfg > 0 \<and>
   (\<exists>u'. handle_reconfiguration_request ex_col ex_cfg ex_ue_scell = Inr u') \<and>
   (\<exists>pcell. pcell_cfg ex_col ex_cfg = Inr pcell) \<and>
   (\<exists>u'. ue_ctor ex_col \<lparr>cmd_cfg = ex_cfg, starts_in_fallback = True\<rparr> = Inr u')"
proof -
  have z: "nof_cells \<lparr>cfg_cells = [], logical_channels = []\<rparr> = 0" by (simp add: nof_cells_def)
  have n: "nof_cells ex_cfg > 0" by (simp add: nof_cells_def ex_cfg_def)
  have pu: "pcell_cfg ex_col_unchecked \<lparr>cfg_cells = [], logical_channels = []\<rparr> =
      Inr \<lparr>cell_index = 0, cell_cfg_ded = 0\<rparr>"
    by (simp add: ex_col_unchecked_def)
  have pe: "pcell_cfg ex_col \<lparr>cfg_cells = [], logical_channels = []\<rparr> = Inl OutOfRangeAccess"
    by (simp add: ex_col_def)
  have pc: "\<exists>pcell. pcell_cfg ex_col ex_cfg = Inr pcell" by (simp add: ex_col_def ex_cfg_def)
  from reconfiguration_requires_a_cell
         [of "\<lparr>cfg_cells = [], logical_channels = []\<rparr>" ex_col_unchecked ex_ue_scell True]
       reconfiguration_requires_a_cell
         [of "\<lparr>cfg_cells = [], logical_channels = []\<rparr>" ex_col ex_ue_scell True]
       reconfiguration_requires_a_cell [of ex_cfg ex_col ex_ue_scell True] z n pu pe pc
  show ?thesis by blast
qed

subsection \<open>SRB0 scheduling\<close>

lemma get_next_dl_slot_Some:
  "get_next_dl_slot cfg sl = Some c \<Longrightarrow>
   sl \<le> c \<and> is_dl_enabled cfg c \<and> (\<forall>s. sl \<le> s \<and> s < c \<longrightarrow> \<not> is_dl_enabled cfg s)"
proof (induction rule: get_next_dl_slot.raw_induct [rotated 1, consumes 1])
  case (1 f cfg sl c)
  show ?case
  proof (cases "is_dl_enabled cfg sl")
    case True
    with 1(2) show ?thesis by auto
  next
    case False
    with 1(2) have "f cfg (sl + 1) = Some c" by simp
    from 1(1) [OF this] have c: "sl + 1 \<le> c" "is_dl_enabled cfg c"
      and n: "\<forall>s. sl + 1 \<le> s \<and> s < c \<longrightarrow> \<not> is_dl_enabled cfg s"
      by auto
    have "\<not> is_dl_enabled cfg s" if "sl \<le> s" "s < c" for s
      using that n False by (cases "s = sl") auto
    with c show ?thesis by auto
  qed
qed

lemma skip_to_pucch_compatible_slot_Some:
  "skip_to_pucch_compatible_slot cfg s = Some e \<Longrightarrow>
   s \<le> e \<and> pucch_compatible_dl_slot cfg e \<and>
   (\<forall>x. s \<le> x \<and> x < e \<longrightarrow> \<not> pucch_compatible_dl_slot cfg x)"
proof (induction rule: skip_to_pucch_compatible_slot.raw_induct [rotated 1, consumes 1])
  case (1 f cfg s e)
  show ?case
  proof (cases "pucch_compatible_dl_slot cfg s")
    case True
    with 1(2) show ?thesis by (auto simp: pucch_compatible_dl_slot_def)
  next
    case False
    with 1(2) have "f cfg (s + 1) = Some e" by (auto simp: pucch_compatible_dl_slot_def)
    from 1(1) [OF this] have c: "s + 1 \<le> e" "pucch_compatible_dl_slot cfg e"
      and n: "\<forall>x. s + 1 \<le> x \<and> x < e \<longrightarrow> \<not> pucch_compatible_dl_slot cfg x"
      by auto
    have "\<not> pucch_compatible_dl_slot cfg x" if "s \<le> x" "x < e" for x
      using that n False by (cases "x = s") auto
    with c show ?thesis by auto
  qed
qed

lemma skip_occupied_dl_slots_Some:
  "skip_occupied_dl_slots cfg n s cnt = Some y \<Longrightarrow> cnt < n \<Longrightarrow>
   s < y \<and> is_dl_enabled cfg y \<and> length (filter (is_dl_enabled cfg) [s + 1 ..< y + 1]) = n - cnt"
proof (induction rule: skip_occupied_dl_slots.raw_induct [rotated 1, consumes 1])
  case (1 f cfg n s cnt y)
  let ?cnt1 = "if is_dl_enabled cfg (s + 1) then cnt + 1 else cnt"
  show ?case
  proof (cases "?cnt1 = n")
    case True
    with 1(2) have y: "y = s + 1" by (simp add: Let_def)
    from True 1(3) have dl: "is_dl_enabled cfg (s + 1)" and n: "n = cnt + 1"
      by (auto split: if_splits)
    show ?thesis using y dl n by simp
  next
    case False
    with 1(2) have r: "f cfg n (s + 1) ?cnt1 = Some y" by (simp add: Let_def)
    from False 1(3) have lt: "?cnt1 < n" by (auto split: if_splits)
    from 1(1) [OF r lt] have sy: "s + 1 < y" and dl: "is_dl_enabled cfg y"
      and len: "length (filter (is_dl_enabled cfg) [s + 1 + 1 ..< y + 1]) = n - ?cnt1"
      by auto
    have "[s + 1 ..< y + 1] = (s + 1) # [s + 1 + 1 ..< y + 1]"
      using sy by (simp add: upt_rec)
    then have "length (filter (is_dl_enabled cfg) [s + 1 ..< y + 1]) =
                 (if is_dl_enabled cfg (s + 1) then 1 else 0) + (n - ?cnt1)"
      using len by simp
    with lt sy dl show ?thesis by (auto split: if_splits)
  qed
qed

lemma occupy_grid_Some:
  "occupy_grid cfg n s cnt filled = Some r \<Longrightarrow> cnt \<le> n \<Longrightarrow>
   \<exists>z. s \<le> z \<and> r = filled @ filter (is_dl_enabled cfg) [s ..< z] \<and>
       length (filter (is_dl_enabled cfg) [s ..< z]) = n - cnt"
proof (induction rule: occupy_grid.raw_induct [rotated 1, consumes 1])
  case (1 f cfg n s cnt filled r)
  show ?case
  proof (cases "cnt < n")
    case False
    with 1(2) 1(3) have "r = filled" "cnt = n" by auto
    then show ?thesis by (intro exI [of _ s]) simp
  next
    case True
    show ?thesis
    proof (cases "is_dl_enabled cfg s")
      case dl: True
      with True 1(2) have rr: "f cfg n (s + 1) (cnt + 1) (filled @ [s]) = Some r" by simp
      from True have "cnt + 1 \<le> n" by simp
      from 1(1) [OF rr this] obtain z where z: "s + 1 \<le> z"
        and r: "r = (filled @ [s]) @ filter (is_dl_enabled cfg) [s + 1 ..< z]"
        and len: "length (filter (is_dl_enabled cfg) [s + 1 ..< z]) = n - (cnt + 1)"
        by blast
      have u: "[s ..< z] = s # [s + 1 ..< z]" using z by (simp add: upt_rec)
      show ?thesis
        using z r len dl True by (intro exI [of _ z]) (simp add: u)
    next
      case ndl: False
      with True 1(2) have rr: "f cfg n (s + 1) cnt filled = Some r" by simp
      from 1(1) [OF rr 1(3)] obtain z where z: "s + 1 \<le> z"
        and r: "r = filled @ filter (is_dl_enabled cfg) [s + 1 ..< z]"
        and len: "length (filter (is_dl_enabled cfg) [s + 1 ..< z]) = n - cnt"
        by blast
      have u: "[s ..< z] = s # [s + 1 ..< z]" using z by (simp add: upt_rec)
      show ?thesis
        using z r len ndl by (intro exI [of _ z]) (simp add: u)
    qed
  qed
qed

lemma filter_upt_split:
  assumes "a \<le> b" "b \<le> d"
  shows "filter P [a ..< d] = filter P [a ..< b] @ filter P [b ..< d]"
proof -
  from assms have "[a ..< d] = [a ..< b] @ [b ..< d]"
    by (metis le_Suc_ex upt_add_eq_append)
  then show ?thesis by simp
qed

lemma filter_upt_single: "filter P [a ..< a + 1] = (if P a then [a] else [])"
  by simp

lemma busy_window:
  assumes n: "1 \<le> n"
      and c: "get_next_dl_slot cfg T = Some c"
      and y: "skip_occupied_dl_slots cfg n c 0 = Some y"
      and f: "occupy_grid cfg n T 0 [] = Some filled"
  shows "T \<le> c \<and> c < y \<and>
         (\<forall>x. T \<le> x \<and> x < y \<and> is_dl_enabled cfg x \<longrightarrow> x \<in> set filled) \<and>
         (\<forall>x\<in>set filled. x < y)"
proof -
  let ?F = "\<lambda>a b. filter (is_dl_enabled cfg) [a ..< b]"
  from get_next_dl_slot_Some [OF c] have Tc: "T \<le> c" and dlc: "is_dl_enabled cfg c"
    and nodl: "\<forall>s. T \<le> s \<and> s < c \<longrightarrow> \<not> is_dl_enabled cfg s"
    by auto
  from n have n0: "0 < n" by simp
  from skip_occupied_dl_slots_Some [OF y n0] have cy: "c < y" and dly: "is_dl_enabled cfg y"
    and leny: "length (?F (c + 1) (y + 1)) = n"
    by auto
  from occupy_grid_Some [OF f] obtain z where Tz: "T \<le> z" and fz: "filled = ?F T z"
    and lenz: "length (?F T z) = n"
    by auto
  have e1: "?F T c = []" using nodl by (auto simp: filter_empty_conv)
  have s1: "?F T (y + 1) = ?F T c @ ?F c (y + 1)"
    using Tc cy by (intro filter_upt_split) auto
  have s2: "?F c (y + 1) = ?F c (c + 1) @ ?F (c + 1) (y + 1)"
    using cy by (intro filter_upt_split) auto
  have lenT: "length (?F T (y + 1)) = n + 1"
    unfolding s1 s2 e1 using leny dlc by simp
  have zy: "z \<le> y"
  proof (rule ccontr)
    assume "\<not> z \<le> y"
    then have yz: "y + 1 \<le> z" by simp
    have "?F T z = ?F T (y + 1) @ ?F (y + 1) z"
      using Tc cy yz by (intro filter_upt_split) auto
    then have "length (?F T z) \<ge> n + 1" using lenT by simp
    with lenz show False by simp
  qed
  have s3: "?F T (y + 1) = ?F T y @ ?F y (y + 1)"
    using Tc cy by (intro filter_upt_split) auto
  have lenTy: "length (?F T y) = n" using lenT dly unfolding s3 by simp
  have s4: "?F T y = ?F T z @ ?F z y"
    using Tz zy by (intro filter_upt_split) auto
  have "length (?F z y) = 0" using lenTy lenz unfolding s4 by simp
  then have e2: "?F z y = []" by simp
  have nozy: "\<not> is_dl_enabled cfg x" if "z \<le> x" "x < y" for x
    using e2 that by (auto simp: filter_empty_conv)
  have p1: "\<forall>x. T \<le> x \<and> x < y \<and> is_dl_enabled cfg x \<longrightarrow> x \<in> set filled"
  proof (intro allI impI)
    fix x assume x: "T \<le> x \<and> x < y \<and> is_dl_enabled cfg x"
    with nozy [of x] have "x < z" by (cases "x < z") auto
    with x show "x \<in> set filled" unfolding fz by simp
  qed
  have p2: "\<forall>x\<in>set filled. x < y" unfolding fz using zy by auto
  from Tc cy p1 p2 show ?thesis by blast
qed

lemma find_upt_Some:
  assumes "a \<le> e" "e < b" "P e" "\<forall>x. a \<le> x \<and> x < e \<longrightarrow> \<not> P x"
  shows "find P [a ..< b] = Some e"
proof -
  have "\<exists>i<length [a ..< b]. P ([a ..< b] ! i) \<and> e = [a ..< b] ! i \<and> (\<forall>j<i. \<not> P ([a ..< b] ! j))"
    using assms by (intro exI [of _ "e - a"]) auto
  then show ?thesis by (simp only: find_Some_iff)
qed

lemma find_upt_None:
  assumes "\<forall>x. a \<le> x \<and> x < b \<longrightarrow> \<not> P x"
  shows "find P [a ..< b] = None"
  using assms by (auto simp: find_None_iff)

lemma schedule_srb0_found:
  assumes "a \<le> e" "e \<le> a + la" "srb0_slot_eligible cfg full e"
      and "\<forall>x. a \<le> x \<and> x < e \<longrightarrow> \<not> srb0_slot_eligible cfg full x"
  shows "\<exists>k1. find (\<lambda>k1. is_ul_enabled cfg (e + k1)) dci_1_0_k1_values = Some k1 \<and>
              schedule_srb0 cfg full la a u =
                Some \<lparr>grant_ue = u, pdcch_slot = e, pdsch_slot = e, pucch_slot = e + k1\<rparr>"
proof -
  from assms(3) have "k1_falls_on_ul cfg e" by (simp add: srb0_slot_eligible_def)
  then have "find (\<lambda>k1. is_ul_enabled cfg (e + k1)) dci_1_0_k1_values \<noteq> None"
    by (auto simp: k1_falls_on_ul_def find_None_iff list_ex_iff)
  then obtain k1 where k1: "find (\<lambda>k1. is_ul_enabled cfg (e + k1)) dci_1_0_k1_values = Some k1"
    by auto
  from assms(2) have "e < a + la + 1" by simp
  from find_upt_Some [OF assms(1) this assms(3) assms(4)]
  have "find (srb0_slot_eligible cfg full) [a ..< a + la + 1] = Some e" .
  with k1 show ?thesis by (simp add: schedule_srb0_def)
qed

lemma schedule_srb0_none:
  assumes "\<forall>x. a \<le> x \<and> x < a + la + 1 \<longrightarrow> \<not> srb0_slot_eligible cfg full x"
  shows "schedule_srb0 cfg full la a u = None"
  using find_upt_None [OF assms] by (simp add: schedule_srb0_def)

lemma sched_step_no_pending:
  "pending_ues st = [] \<Longrightarrow> sched_step cfg grid_full la st (RunSlot sl) = (st :: srb0_sched)"
  by (cases st) simp

lemma run_events_no_pending:
  "pending_ues st = [] \<Longrightarrow>
   run_events cfg grid_full la (map RunSlot sls) st = (st :: srb0_sched)"
  by (induction sls) (simp_all add: run_events_def sched_step_no_pending del: sched_step.simps)

lemma run_events_Cons:
  "run_events cfg grid_full la (ev # evs) st =
     run_events cfg grid_full la evs (sched_step cfg grid_full la st ev)"
  by (simp add: run_events_def)

lemma run_single_pending:
  assumes e: "srb0_slot_eligible cfg full e"
      and k1: "find (\<lambda>k1. is_ul_enabled cfg (e + k1)) dci_1_0_k1_values = Some k1"
  shows "a \<le> e \<Longrightarrow> e < b \<Longrightarrow> \<forall>x. a \<le> x \<and> x < e \<longrightarrow> \<not> srb0_slot_eligible cfg full x \<Longrightarrow>
         run_events cfg (\<lambda>gs. full) la (map RunSlot [a ..< b]) \<lparr>pending_ues = [u], committed = []\<rparr> =
           \<lparr>pending_ues = [],
            committed = [\<lparr>grant_ue = u, pdcch_slot = e, pdsch_slot = e, pucch_slot = e + k1\<rparr>]\<rparr>"
proof (induction "e - a" arbitrary: a)
  case 0
  then have ae: "a = e" by simp
  from 0 have ab: "[a ..< b] = a # [a + 1 ..< b]" by (simp add: upt_rec)
  from schedule_srb0_found [OF _ _ e, of a la u] 0(2,4) ae k1
  have "schedule_srb0 cfg full la a u =
          Some \<lparr>grant_ue = u, pdcch_slot = e, pdsch_slot = e, pucch_slot = e + k1\<rparr>"
    by auto
  then show ?case
    unfolding ab by (simp add: run_events_Cons run_events_no_pending)
next
  case (Suc d)
  from Suc(2,3,4) have ab: "[a ..< b] = a # [a + 1 ..< b]" by (simp add: upt_rec)
  show ?case
  proof (cases "e \<le> a + la")
    case True
    from schedule_srb0_found [OF Suc(3) True e Suc(5), of u] k1
    have "schedule_srb0 cfg full la a u =
            Some \<lparr>grant_ue = u, pdcch_slot = e, pdsch_slot = e, pucch_slot = e + k1\<rparr>"
      by auto
    then show ?thesis
      unfolding ab by (simp add: run_events_Cons run_events_no_pending)
  next
    case False
    then have "\<forall>x. a \<le> x \<and> x < a + la + 1 \<longrightarrow> \<not> srb0_slot_eligible cfg full x"
      using Suc(5) by auto
    from schedule_srb0_none [OF this]
    have none: "schedule_srb0 cfg full la a u = None" .
    from Suc(2) have d: "d = e - (a + 1)" and ae: "a + 1 \<le> e" by auto
    have rest: "\<forall>x. a + 1 \<le> x \<and> x < e \<longrightarrow> \<not> srb0_slot_eligible cfg full x"
      using Suc(5) by auto
    from Suc(1) [OF d ae Suc(4) rest] none show ?thesis
      unfolding ab by (simp add: run_events_Cons)
  qed
qed

text \<open>
  The slot searches of the test are loops without a bound. Each of them returns as soon as the
  slots it looks for exist: a downlink slot ahead, enough downlink slots to fill, and a slot
  with an uplink slot at one of the delays behind the filled ones.
\<close>

lemma get_next_dl_slot_returns:
  "is_dl_enabled cfg x \<Longrightarrow> sl \<le> x \<Longrightarrow> \<exists>c. get_next_dl_slot cfg sl = Some c"
proof (induction "x - sl" arbitrary: sl)
  case 0
  then have "sl = x" by simp
  with 0 show ?case by (subst get_next_dl_slot.simps) simp
next
  case (Suc d)
  show ?case
  proof (cases "is_dl_enabled cfg sl")
    case True
    then show ?thesis by (subst get_next_dl_slot.simps) simp
  next
    case False
    from Suc(2,4) have "d = x - (sl + 1)" "sl + 1 \<le> x" by auto
    from Suc(1) [OF this(1) Suc(3) this(2)] False show ?thesis
      by (subst get_next_dl_slot.simps) simp
  qed
qed

lemma skip_to_pucch_compatible_slot_returns:
  "pucch_compatible_dl_slot cfg x \<Longrightarrow> s \<le> x \<Longrightarrow>
   \<exists>e. skip_to_pucch_compatible_slot cfg s = Some e"
proof (induction "x - s" arbitrary: s)
  case 0
  then have "s = x" by simp
  with 0 show ?case
    by (subst skip_to_pucch_compatible_slot.simps) (simp add: pucch_compatible_dl_slot_def)
next
  case (Suc d)
  show ?case
  proof (cases "pucch_compatible_dl_slot cfg s")
    case True
    then show ?thesis
      by (subst skip_to_pucch_compatible_slot.simps) (simp add: pucch_compatible_dl_slot_def)
  next
    case False
    from Suc(2,4) have "d = x - (s + 1)" "s + 1 \<le> x" by auto
    from Suc(1) [OF this(1) Suc(3) this(2)] False show ?thesis
      by (subst skip_to_pucch_compatible_slot.simps) (auto simp: pucch_compatible_dl_slot_def)
  qed
qed

lemma skip_occupied_dl_slots_returns:
  "cnt < n \<Longrightarrow> n - cnt \<le> length (filter (is_dl_enabled cfg) [s + 1 ..< b]) \<Longrightarrow>
   \<exists>y. skip_occupied_dl_slots cfg n s cnt = Some y"
proof (induction "b - s" arbitrary: s cnt)
  case 0
  then show ?case by simp
next
  case (Suc d)
  from Suc(3,4) have sb: "s + 1 < b" by (cases "s + 1 < b") auto
  then have u: "[s + 1 ..< b] = (s + 1) # [s + 1 + 1 ..< b]" by (simp add: upt_rec)
  let ?cnt1 = "if is_dl_enabled cfg (s + 1) then cnt + 1 else cnt"
  show ?case
  proof (cases "?cnt1 = n")
    case True
    then show ?thesis by (subst skip_occupied_dl_slots.simps) (simp add: Let_def)
  next
    case False
    with Suc(3) have lt: "?cnt1 < n" by (auto split: if_splits)
    from Suc(4) have le: "n - ?cnt1 \<le> length (filter (is_dl_enabled cfg) [s + 1 + 1 ..< b])"
      unfolding u by (auto split: if_splits)
    from Suc(2) have d: "d = b - (s + 1)" by simp
    from Suc(1) [OF d lt le] False show ?thesis
      by (subst skip_occupied_dl_slots.simps) (simp add: Let_def)
  qed
qed

lemma occupy_grid_returns:
  "n - cnt \<le> length (filter (is_dl_enabled cfg) [s ..< b]) \<Longrightarrow>
   \<exists>r. occupy_grid cfg n s cnt filled = Some r"
proof (induction "b - s" arbitrary: s cnt filled)
  case 0
  then have "\<not> cnt < n" by simp
  then show ?case by (subst occupy_grid.simps) simp
next
  case (Suc d)
  show ?case
  proof (cases "cnt < n")
    case False
    then show ?thesis by (subst occupy_grid.simps) simp
  next
    case True
    from Suc(2) have sb: "s < b" by simp
    then have u: "[s ..< b] = s # [s + 1 ..< b]" by (simp add: upt_rec)
    from Suc(2) have d: "d = b - (s + 1)" by simp
    show ?thesis
    proof (cases "is_dl_enabled cfg s")
      case dl: True
      from Suc(3) have "n - (cnt + 1) \<le> length (filter (is_dl_enabled cfg) [s + 1 ..< b])"
        unfolding u using dl by simp
      from Suc(1) [OF d this, of "filled @ [s]"] True dl show ?thesis
        by (subst occupy_grid.simps) simp
    next
      case ndl: False
      from Suc(3) have "n - cnt \<le> length (filter (is_dl_enabled cfg) [s + 1 ..< b])"
        unfolding u using ndl by simp
      from Suc(1) [OF d this, of filled] True ndl show ?thesis
        by (subst occupy_grid.simps) simp
    qed
  qed
qed

lemma srb0_test_helpers_return:
  assumes n: "1 \<le> n"
      and dl: "n + 1 \<le> length (filter (is_dl_enabled cfg) [T ..< b])"
      and ok: "pucch_compatible_dl_slot cfg x" "b \<le> x"
  shows "\<exists>filled c e. occupy_grid cfg n T 0 [] = Some filled \<and>
           get_next_dl_slot cfg T = Some c \<and>
           get_next_candidate_alloc_slot cfg c n = Some e"
proof -
  from dl have "n - 0 \<le> length (filter (is_dl_enabled cfg) [T ..< b])" by simp
  from occupy_grid_returns [OF this] obtain filled where
    f: "occupy_grid cfg n T 0 [] = Some filled" by blast
  from dl have "filter (is_dl_enabled cfg) [T ..< b] \<noteq> []" by auto
  then obtain d where d: "is_dl_enabled cfg d" "T \<le> d" "d < b"
    by (auto simp: filter_empty_conv)
  from get_next_dl_slot_returns [OF d(1) d(2)] obtain c where
    c: "get_next_dl_slot cfg T = Some c" by blast
  from get_next_dl_slot_Some [OF c] have Tc: "T \<le> c" and dlc: "is_dl_enabled cfg c"
    and nodl: "\<forall>s. T \<le> s \<and> s < c \<longrightarrow> \<not> is_dl_enabled cfg s"
    by auto
  have cb: "c < b" using nodl d Tc by (cases "c < b") auto
  have e1: "filter (is_dl_enabled cfg) [T ..< c] = []" using nodl by (auto simp: filter_empty_conv)
  have "filter (is_dl_enabled cfg) [T ..< b] =
          filter (is_dl_enabled cfg) [T ..< c] @ filter (is_dl_enabled cfg) [c ..< b]"
    using Tc cb by (intro filter_upt_split) auto
  moreover have "filter (is_dl_enabled cfg) [c ..< b] =
          filter (is_dl_enabled cfg) [c ..< c + 1] @ filter (is_dl_enabled cfg) [c + 1 ..< b]"
    using cb by (intro filter_upt_split) auto
  ultimately have "length (filter (is_dl_enabled cfg) [T ..< b]) =
          1 + length (filter (is_dl_enabled cfg) [c + 1 ..< b])"
    using e1 dlc by simp
  with dl have "n - 0 \<le> length (filter (is_dl_enabled cfg) [c + 1 ..< b])" by simp
  moreover from n have "0 < n" by simp
  ultimately obtain y where y: "skip_occupied_dl_slots cfg n c 0 = Some y"
    using skip_occupied_dl_slots_returns [of 0 n cfg c b] by blast
  from skip_occupied_dl_slots_Some [OF y \<open>0 < n\<close>] have cy: "c < y"
    and leny: "length (filter (is_dl_enabled cfg) [c + 1 ..< y + 1]) = n"
    and dly: "is_dl_enabled cfg y"
    by auto
  have yb: "y < b"
  proof (rule ccontr)
    assume "\<not> y < b"
    then have by': "b \<le> y" by simp
    have "filter (is_dl_enabled cfg) [c + 1 ..< y + 1] =
            filter (is_dl_enabled cfg) [c + 1 ..< b] @ filter (is_dl_enabled cfg) [b ..< y + 1]"
      using cb by' by (intro filter_upt_split) auto
    moreover have "filter (is_dl_enabled cfg) [b ..< y + 1] =
            filter (is_dl_enabled cfg) [b ..< y] @ filter (is_dl_enabled cfg) [y ..< y + 1]"
      using by' by (intro filter_upt_split) auto
    ultimately have "n \<ge> length (filter (is_dl_enabled cfg) [c + 1 ..< b]) + 1"
      using leny dly by simp
    moreover have "n \<le> length (filter (is_dl_enabled cfg) [c + 1 ..< b])"
      using \<open>n - 0 \<le> length (filter (is_dl_enabled cfg) [c + 1 ..< b])\<close> by simp
    ultimately show False by simp
  qed
  with ok have "y \<le> x" by simp
  from skip_to_pucch_compatible_slot_returns [OF ok(1) this] obtain e where
    "skip_to_pucch_compatible_slot cfg y = Some e" by blast
  with y n have "get_next_candidate_alloc_slot cfg c n = Some e"
    by (simp add: get_next_candidate_alloc_slot_def)
  with f c show ?thesis by blast
qed

text \<open>
  C4 (on the scheduler modelled from the spec). A fallback UE gets an SRB0 buffer state
  update at slot \<open>T\<close> while the test fills the DL grid of the next \<open>n \<ge> 1\<close> DL slots, and
  the helpers of the test return: the first DL slot \<open>c\<close> from \<open>T\<close> on and the expected
  slot \<open>e = get_next_candidate_alloc_slot c n\<close>. Then, whatever the lookahead bound, a run
  of the scheduler over the slots after \<open>T\<close> that reaches \<open>e\<close> commits exactly one grant
  for the UE, with PDCCH and PDSCH at \<open>e\<close> and the PUCCH at the first offset that falls
  on an UL slot; \<open>e\<close> is after \<open>T\<close> and after every filled slot, it is a DL slot without
  CSI-RS whose grid is free and from which some offset reaches an UL slot, and no slot
  between \<open>T\<close> and \<open>e\<close> is one.
\<close>

theorem srb0_grant_at_first_eligible_slot:
  assumes n: "1 \<le> n"
      and f: "occupy_grid cfg n T 0 [] = Some filled"
      and c: "get_next_dl_slot cfg T = Some c"
      and e: "get_next_candidate_alloc_slot cfg c n = Some e"
      and m: "e \<le> T + m"
  shows "\<exists>k1. find (\<lambda>k1. is_ul_enabled cfg (e + k1)) dci_1_0_k1_values = Some k1 \<and>
           is_ul_enabled cfg (e + k1) \<and>
           run_events cfg (\<lambda>grants s. s \<in> set filled) max_lookahead
               (BufferState u # map RunSlot [T + 1 ..< T + m + 1])
               \<lparr>pending_ues = [], committed = []\<rparr> =
             \<lparr>pending_ues = [],
              committed = [\<lparr>grant_ue = u, pdcch_slot = e, pdsch_slot = e, pucch_slot = e + k1\<rparr>]\<rparr> \<and>
           T < e \<and> (\<forall>x\<in>set filled. x < e) \<and>
           srb0_slot_eligible cfg (\<lambda>s. s \<in> set filled) e \<and>
           (\<forall>x. T < x \<and> x < e \<longrightarrow> \<not> srb0_slot_eligible cfg (\<lambda>s. s \<in> set filled) x)"
proof -
  let ?full = "\<lambda>s. s \<in> set filled"
  from n e obtain y where y: "skip_occupied_dl_slots cfg n c 0 = Some y"
    and ey: "skip_to_pucch_compatible_slot cfg y = Some e"
    by (auto simp: get_next_candidate_alloc_slot_def split: option.splits)
  from busy_window [OF n c y f] have Tc: "T \<le> c" and cy: "c < y"
    and inwin: "\<forall>x. T \<le> x \<and> x < y \<and> is_dl_enabled cfg x \<longrightarrow> x \<in> set filled"
    and below: "\<forall>x\<in>set filled. x < y"
    by auto
  from skip_to_pucch_compatible_slot_Some [OF ey] have ye: "y \<le> e"
    and oke: "pucch_compatible_dl_slot cfg e"
    and nok: "\<forall>x. y \<le> x \<and> x < e \<longrightarrow> \<not> pucch_compatible_dl_slot cfg x"
    by auto
  have Te: "T < e" using Tc cy ye by simp
  have "e \<notin> set filled" using below ye by auto
  with oke have el: "srb0_slot_eligible cfg ?full e"
    by (simp add: srb0_slot_eligible_def pucch_compatible_dl_slot_def)
  have first: "\<forall>x. T + 1 \<le> x \<and> x < e \<longrightarrow> \<not> srb0_slot_eligible cfg ?full x"
  proof (intro allI impI)
    fix x assume x: "T + 1 \<le> x \<and> x < e"
    show "\<not> srb0_slot_eligible cfg ?full x"
    proof (cases "x < y")
      case True
      with x inwin show ?thesis by (auto simp: srb0_slot_eligible_def)
    next
      case False
      with x nok show ?thesis
        by (auto simp: srb0_slot_eligible_def pucch_compatible_dl_slot_def)
    qed
  qed
  from el have "k1_falls_on_ul cfg e" by (simp add: srb0_slot_eligible_def)
  then have "find (\<lambda>k1. is_ul_enabled cfg (e + k1)) dci_1_0_k1_values \<noteq> None"
    by (auto simp: k1_falls_on_ul_def find_None_iff list_ex_iff)
  then obtain k1 where k1: "find (\<lambda>k1. is_ul_enabled cfg (e + k1)) dci_1_0_k1_values = Some k1"
    by auto
  then have k1p: "k1 \<in> set dci_1_0_k1_values" "is_ul_enabled cfg (e + k1)"
    by (auto simp: find_Some_iff)
  have a: "T + 1 \<le> e" using Te by simp
  have b: "e < T + m + 1" using m by simp
  from run_single_pending [OF el k1 a b first, of max_lookahead u]
  have "run_events cfg (\<lambda>grants s. s \<in> set filled) max_lookahead
               (BufferState u # map RunSlot [T + 1 ..< T + m + 1])
               \<lparr>pending_ues = [], committed = []\<rparr> =
             \<lparr>pending_ues = [],
              committed = [\<lparr>grant_ue = u, pdcch_slot = e, pdsch_slot = e, pucch_slot = e + k1\<rparr>]\<rparr>"
    by (simp add: run_events_Cons)
  moreover have "\<forall>x. T < x \<and> x < e \<longrightarrow> \<not> srb0_slot_eligible cfg ?full x"
    using first by auto
  moreover have "\<forall>x\<in>set filled. x < e" using below ye by auto
  ultimately show ?thesis using k1 k1p Te el by blast
qed

lemma schedule_srb0_ok:
  assumes "schedule_srb0 cfg full la sl u = Some g"
  shows "grant_slots_ok cfg g"
proof -
  from assms obtain s k1 where s: "find (srb0_slot_eligible cfg full) [sl ..< sl + la + 1] = Some s"
    and k1: "find (\<lambda>k1. is_ul_enabled cfg (s + k1)) dci_1_0_k1_values = Some k1"
    and g: "g = \<lparr>grant_ue = u, pdcch_slot = s, pdsch_slot = s, pucch_slot = s + k1\<rparr>"
    by (auto simp: schedule_srb0_def split: option.splits)
  from s have "srb0_slot_eligible cfg full s" by (auto simp: find_Some_iff)
  then have "is_dl_enabled cfg s" by (simp add: srb0_slot_eligible_def)
  moreover from k1 have "is_ul_enabled cfg (s + k1)" by (auto simp: find_Some_iff)
  ultimately show ?thesis by (simp add: g grant_slots_ok_def)
qed

lemma schedule_ues_ok:
  "list_all (grant_slots_ok cfg) grants \<Longrightarrow>
   list_all (grant_slots_ok cfg) (snd (schedule_ues cfg grid_full la sl us grants))"
proof (induction us arbitrary: grants)
  case Nil
  then show ?case by simp
next
  case (Cons u us)
  show ?case
  proof (cases "schedule_srb0 cfg (grid_full grants) la sl u")
    case None
    with Cons.IH [OF Cons.prems] show ?thesis
      by (cases "schedule_ues cfg grid_full la sl us grants") auto
  next
    case (Some g)
    from schedule_srb0_ok [OF Some] Cons.prems
    have "list_all (grant_slots_ok cfg) (grants @ [g])" by simp
    from Cons.IH [OF this] Some show ?thesis by simp
  qed
qed

lemma sched_step_ok:
  "list_all (grant_slots_ok cfg) (committed st) \<Longrightarrow>
   list_all (grant_slots_ok cfg) (committed (sched_step cfg grid_full la st ev))"
proof (cases ev)
  case (BufferState u)
  assume "list_all (grant_slots_ok cfg) (committed st)"
  with BufferState show ?thesis by simp
next
  case (RunSlot sl)
  assume "list_all (grant_slots_ok cfg) (committed st)"
  from schedule_ues_ok [OF this, of grid_full la sl "pending_ues st"] RunSlot
  show ?thesis
    by (cases "schedule_ues cfg grid_full la sl (pending_ues st) (committed st)") auto
qed

text \<open>
  C6 (on the scheduler modelled from the spec). Whatever the duplex configuration, the
  buffer state indications and the slots the scheduler runs at, the lookahead bound and
  the occupancy of the grid: every grant the scheduler commits has its PDCCH and its
  PDSCH on a DL-capable slot and its PUCCH on an UL-capable slot.
\<close>

theorem srb0_grants_on_duplex_compatible_slots:
  "list_all (grant_slots_ok cfg) (committed st) \<Longrightarrow>
   list_all (grant_slots_ok cfg) (committed (run_events cfg grid_full max_lookahead evs st))"
proof (induction evs arbitrary: st)
  case Nil
  then show ?case by (simp add: run_events_def)
next
  case (Cons ev evs)
  from Cons.IH [OF sched_step_ok [OF Cons.prems]] show ?case
    by (simp add: run_events_Cons)
qed

lemma ex_tdd_simps:
  "is_dl_enabled ex_tdd s = (s mod 10 < 7)"
  "is_ul_enabled ex_tdd s = (7 \<le> s mod 10)"
  "is_csi_rs_slot ex_tdd s = (s mod 20 = 4 \<or> s mod 20 = 5)"
  by (simp_all add: ex_tdd_def)

theorem srb0_grant_at_first_eligible_slot_witness:
  "(1::nat) \<le> 3 \<and>
   occupy_grid ex_tdd 3 21 0 [] = Some [21, 22, 23] \<and>
   get_next_dl_slot ex_tdd 21 = Some 21 \<and>
   get_next_candidate_alloc_slot ex_tdd 21 3 = Some 30 \<and>
   (30::nat) \<le> 21 + 15 \<and>
   run_events ex_tdd (\<lambda>grants s. s \<in> set [21, 22, 23]) 4
       (BufferState 0 # map RunSlot [21 + 1 ..< 21 + 15 + 1])
       \<lparr>pending_ues = [], committed = []\<rparr> =
     \<lparr>pending_ues = [],
      committed = [\<lparr>grant_ue = 0, pdcch_slot = 30, pdsch_slot = 30, pucch_slot = 37\<rparr>]\<rparr>"
proof -
  have f: "occupy_grid ex_tdd 3 21 0 [] = Some [21, 22, 23]"
    by (simp add: occupy_grid.simps ex_tdd_simps)
  have c: "get_next_dl_slot ex_tdd 21 = Some 21"
    by (simp add: get_next_dl_slot.simps ex_tdd_simps)
  have y: "skip_occupied_dl_slots ex_tdd 3 21 0 = Some 24"
    by (simp add: skip_occupied_dl_slots.simps ex_tdd_simps)
  have e: "get_next_candidate_alloc_slot ex_tdd 21 3 = Some 30"
    by (simp add: get_next_candidate_alloc_slot_def y skip_to_pucch_compatible_slot.simps
        k1_falls_on_ul_def dci_1_0_k1_values_def ex_tdd_simps)
  from srb0_grant_at_first_eligible_slot [OF _ f c e, of 15 4 0]
  obtain k1 where k1: "find (\<lambda>k1. is_ul_enabled ex_tdd (30 + k1)) dci_1_0_k1_values = Some k1"
    and r: "run_events ex_tdd (\<lambda>grants s. s \<in> set [21, 22, 23]) 4
       (BufferState 0 # map RunSlot [21 + 1 ..< 21 + 15 + 1])
       \<lparr>pending_ues = [], committed = []\<rparr> =
     \<lparr>pending_ues = [],
      committed = [\<lparr>grant_ue = 0, pdcch_slot = 30, pdsch_slot = 30, pucch_slot = 30 + k1\<rparr>]\<rparr>"
    by auto
  from k1 have "k1 = 7" by (simp add: dci_1_0_k1_values_def ex_tdd_simps)
  with r f c e show ?thesis by simp
qed

theorem srb0_grants_on_duplex_compatible_slots_witness:
  "list_all (grant_slots_ok ex_tdd) (committed \<lparr>pending_ues = [], committed = []\<rparr>) \<and>
   run_events ex_tdd ex_one_grant_per_slot 4 [BufferState 0, BufferState 1, RunSlot 7, RunSlot 8]
       \<lparr>pending_ues = [], committed = []\<rparr> =
     \<lparr>pending_ues = [],
      committed = [\<lparr>grant_ue = 0, pdcch_slot = 10, pdsch_slot = 10, pucch_slot = 17\<rparr>,
                   \<lparr>grant_ue = 1, pdcch_slot = 11, pdsch_slot = 11, pucch_slot = 17\<rparr>]\<rparr> \<and>
   list_all (grant_slots_ok ex_tdd)
     [\<lparr>grant_ue = 0, pdcch_slot = 10, pdsch_slot = 10, pucch_slot = 17\<rparr>,
      \<lparr>grant_ue = 1, pdcch_slot = 11, pdsch_slot = 11, pucch_slot = 17\<rparr>]"
proof -
  have i: "list_all (grant_slots_ok ex_tdd) (committed \<lparr>pending_ues = [], committed = []\<rparr>)"
    by simp
  have r: "run_events ex_tdd ex_one_grant_per_slot 4 [BufferState 0, BufferState 1, RunSlot 7, RunSlot 8]
       \<lparr>pending_ues = [], committed = []\<rparr> =
     \<lparr>pending_ues = [],
      committed = [\<lparr>grant_ue = 0, pdcch_slot = 10, pdsch_slot = 10, pucch_slot = 17\<rparr>,
                   \<lparr>grant_ue = 1, pdcch_slot = 11, pdsch_slot = 11, pucch_slot = 17\<rparr>]\<rparr>"
    by (simp add: run_events_def schedule_srb0_def srb0_slot_eligible_def k1_falls_on_ul_def
        dci_1_0_k1_values_def ex_one_grant_per_slot_def ex_tdd_simps upt_rec)
  from srb0_grants_on_duplex_compatible_slots [OF i, of ex_one_grant_per_slot 4
         "[BufferState 0, BufferState 1, RunSlot 7, RunSlot 8]"] i r
  show ?thesis by simp
qed

end
